theory Spec2Isabelle
  imports Complex_Main "HOL-Library.Product_Lexorder" "HOL-Library.Multiset"
begin

section \<open>Python values and exceptions\<close>

text \<open>
  The program is \<^verbatim>\<open>ckd_prediction.py\<close>. Exceptions are values: a function that can
  raise returns \<open>py_error + 'a\<close>, with \<open>Inl\<close> the exception that leaves it.
\<close>

datatype py_error =
  ValueError | TypeError | IndexError | OverflowError | KeyError | FileNotFoundError

text \<open>
  A cell of the \<^verbatim>\<open>CKD_stage\<close> column as \<^verbatim>\<open>clean_ckd_stage\<close> receives it: a string, an
  integer, a float (a finite one is a rational number; NaN and the infinities apart) or
  \<^verbatim>\<open>None\<close>. A string is the list of its code points, which are below 256 here.
\<close>

datatype py_value =
  PyStr string | PyInt int | PyFloat rat | PyNaN | PyPosInf | PyNegInf | PyNone

section \<open>Label monotonization\<close>

text \<open>
  \<^verbatim>\<open>monotonic_labels\<close> (lines 80-87): the loop over \<^verbatim>\<open>labels\<close> carries the flag
  \<^verbatim>\<open>has_progressed\<close> and the list \<^verbatim>\<open>monotonic\<close> it appends to.
\<close>

fun monotonic_loop :: "bool \<Rightarrow> int list \<Rightarrow> int list \<Rightarrow> int list" where
  "monotonic_loop has_progressed monotonic [] = monotonic"
| "monotonic_loop has_progressed monotonic (lab # labels) =
     (let has_progressed' = (if lab = 1 then True else has_progressed)
      in monotonic_loop has_progressed'
           (monotonic @ [if has_progressed' then 1 else 0]) labels)"

definition monotonic_labels :: "int list \<Rightarrow> int list" where
  "monotonic_labels labels = monotonic_loop False [] labels"

section \<open>Data frames\<close>

text \<open>
  A pandas data frame is the list of its rows, in row order. The columns the program reads
  are the fields of a row. \<^verbatim>\<open>PatientID\<close> and \<^verbatim>\<open>EventDate\<close> are compared only, so they are
  numbers here. An embedding is a one-dimensional array, a list of its entries; nothing
  is computed with the entries, they are only moved.
\<close>

type_synonym vec = "real list"

record keyed =
  PatientID :: nat

record visit = keyed +
  EventDate :: nat

text \<open>
  A row of the metadata as \<^verbatim>\<open>build_sequences\<close> receives it: \<open>label\<close> is the label of the
  visit itself, \<open>next_label\<close> the raw label of the patient's next visit.
\<close>

record meta_row = visit +
  embedding :: vec
  label :: int
  next_label :: int

text \<open>
  \<^verbatim>\<open>df.groupby("PatientID")\<close> yields one group per distinct key, in ascending key order, each
  group holding its rows in frame order.
\<close>

definition groupby_PatientID :: "('a keyed_scheme) list \<Rightarrow> (nat \<times> ('a keyed_scheme) list) list" where
  "groupby_PatientID df =
     map (\<lambda>pid. (pid, filter (\<lambda>r. PatientID r = pid) df)) (sort (remdups (map PatientID df)))"

text \<open>
  \<^verbatim>\<open>sort_values\<close> on one column sorts with the default algorithm, which is not stable: from
  the key column alone it computes the positions of the rows in sorted order (an argsort) and
  takes the rows in that order. The algorithm is the parameter \<open>argsort\<close>. What is known of it
  is \<open>is_argsort\<close>: it returns every position once, the keys ascending. Which of two rows of
  equal key comes first is the algorithm's choice.
\<close>

definition is_argsort :: "('k :: linorder list \<Rightarrow> nat list) \<Rightarrow> bool" where
  "is_argsort argsort \<longleftrightarrow>
     (\<forall>keys. distinct (argsort keys) \<and> set (argsort keys) = {0..<length keys} \<and>
             sorted (map (\<lambda>i. keys ! i) (argsort keys)))"

definition take_rows :: "'r list \<Rightarrow> nat list \<Rightarrow> 'r list" where
  "take_rows df indexer = map (\<lambda>i. df ! i) indexer"

text \<open>\<^verbatim>\<open>group.sort_values(by="EventDate")\<close> (line 93).\<close>

definition sort_values_EventDate ::
  "(nat list \<Rightarrow> nat list) \<Rightarrow> ('a visit_scheme) list \<Rightarrow> ('a visit_scheme) list" where
  "sort_values_EventDate argsort grp = take_rows grp (argsort (map EventDate grp))"

text \<open>
  Two sorting algorithms to compute examples with: a stable one, and one that puts rows of
  equal key in the reverse of their order in the frame.
\<close>

definition stable_argsort :: "'k :: linorder list \<Rightarrow> nat list" where
  "stable_argsort keys = sort_key (\<lambda>i. keys ! i) [0..<length keys]"

definition reversing_argsort :: "'k :: linorder list \<Rightarrow> nat list" where
  "reversing_argsort keys = sort_key (\<lambda>i. keys ! i) (rev [0..<length keys])"

section \<open>Python lists\<close>

text \<open>
  The slice \<^verbatim>\<open>xs[lo:hi]\<close>: a negative bound counts from the end, and every bound is clamped
  to the list. \<^verbatim>\<open>xs[lo:]\<close> is \<open>py_slice_from\<close>.
\<close>

definition clamp_index :: "nat \<Rightarrow> int \<Rightarrow> nat" where
  "clamp_index n i = (if i < 0 then nat (max 0 (int n + i)) else min n (nat i))"

definition py_slice :: "'a list \<Rightarrow> int \<Rightarrow> int \<Rightarrow> 'a list" where
  "py_slice xs lo hi =
     (let a = clamp_index (length xs) lo; b = clamp_index (length xs) hi
      in take (b - a) (drop a xs))"

definition py_slice_from :: "'a list \<Rightarrow> int \<Rightarrow> 'a list" where
  "py_slice_from xs lo = drop (clamp_index (length xs) lo) xs"

text \<open>\<^verbatim>\<open>range(a, b)\<close> for \<open>0 \<le> a\<close>.\<close>

definition py_range :: "nat \<Rightarrow> nat \<Rightarrow> int list" where
  "py_range a b = map int [a..<b]"

section \<open>Windowing\<close>

text \<open>
  A window is the tuple \<^verbatim>\<open>(context, target, pid, i - 1)\<close> that \<^verbatim>\<open>build_sequences\<close> appends
  (lines 89-102); the source's comment names its components context embeddings, label,
  patient id and local index.
\<close>

record window =
  context_embeddings :: "vec list"
  target :: int
  patient_id :: nat
  local_index :: int

text \<open>The body of the inner loop, for one \<open>i\<close> of \<^verbatim>\<open>range(1, len(embeddings))\<close>.\<close>

definition window_at :: "int \<Rightarrow> nat \<Rightarrow> vec list \<Rightarrow> int list \<Rightarrow> int \<Rightarrow> window" where
  "window_at window_size pid embeddings labels i =
     (let start_idx = max 0 (i - window_size);
          ctx = py_slice embeddings start_idx i;
          tgt = labels ! nat (i - 1)
      in \<lparr>context_embeddings = ctx, target = tgt, patient_id = pid, local_index = i - 1\<rparr>)"

text \<open>
  The body of the outer loop, for one group: it appends the patient's windows to
  \<^verbatim>\<open>sequence_data\<close>. The index \<open>i - 1\<close> into \<open>labels\<close> is in range, since \<open>labels\<close> is as
  long as \<open>embeddings\<close> and \<open>1 \<le> i < len(embeddings)\<close>.
\<close>

definition patient_sequences ::
  "(nat list \<Rightarrow> nat list) \<Rightarrow> int \<Rightarrow> window list \<Rightarrow> nat \<times> meta_row list \<Rightarrow> window list" where
  "patient_sequences argsort window_size sequence_data pg =
     (let pid = fst pg;
          grp = sort_values_EventDate argsort (snd pg);
          embeddings = map embedding grp;
          original_labels = map next_label grp;
          labels = monotonic_labels original_labels
      in foldl (\<lambda>acc i. acc @ [window_at window_size pid embeddings labels i])
           sequence_data (py_range 1 (length embeddings)))"

definition build_sequences ::
  "(nat list \<Rightarrow> nat list) \<Rightarrow> meta_row list \<Rightarrow> int \<Rightarrow> window list" where
  "build_sequences argsort meta window_size =
     foldl (patient_sequences argsort window_size) [] (groupby_PatientID meta)"

text \<open>
  \<^verbatim>\<open>pad_sequence\<close> (lines 104-108). \<^verbatim>\<open>np.zeros(dim)\<close> raises for a negative dimension;
  \<^verbatim>\<open>np.stack\<close> raises for an empty list and for arrays of different shapes.
\<close>

definition np_zeros :: "int \<Rightarrow> py_error + vec" where
  "np_zeros dm = (if dm < 0 then Inl ValueError else Inr (replicate (nat dm) 0))"

definition np_stack :: "vec list \<Rightarrow> py_error + vec list" where
  "np_stack arrays =
     (if arrays = [] then Inl ValueError
      else if list_all (\<lambda>a. length a = length (hd arrays)) arrays then Inr arrays
      else Inl ValueError)"

definition pad_sequence :: "vec list \<Rightarrow> int \<Rightarrow> int \<Rightarrow> py_error + vec list" where
  "pad_sequence seq len dm =
     (if int (length seq) < len then
        (case np_zeros dm of
           Inl e \<Rightarrow> Inl e
         | Inr z \<Rightarrow>
             (let padding = replicate (nat (len - int (length seq))) z;
                  seq' = padding @ seq
              in np_stack (py_slice_from seq' (- len))))
      else np_stack (py_slice_from seq (- len)))"

text \<open>
  \<^verbatim>\<open>CKDSequenceDataset\<close> (lines 110-127). \<^verbatim>\<open>self.data[idx]\<close> raises \<^verbatim>\<open>IndexError\<close> out of range.
  The item is the window with its context padded; the conversion to tensors is left out.
\<close>

record dataset =
  data :: "window list"
  window_size :: int
  embed_dim :: int

definition py_index :: "'a list \<Rightarrow> int \<Rightarrow> py_error + 'a" where
  "py_index xs i =
     (if 0 \<le> i \<and> i < int (length xs) then Inr (xs ! nat i)
      else if i < 0 \<and> - int (length xs) \<le> i then Inr (xs ! nat (int (length xs) + i))
      else Inl IndexError)"

definition getitem :: "dataset \<Rightarrow> int \<Rightarrow> py_error + window" where
  "getitem self idx =
     (case py_index (data self) idx of
        Inl e \<Rightarrow> Inl e
      | Inr w \<Rightarrow>
          (case pad_sequence (context_embeddings w) (window_size self) (embed_dim self) of
             Inl e \<Rightarrow> Inl e
           | Inr context_padded \<Rightarrow> Inr (w\<lparr>context_embeddings := context_padded\<rparr>)))"

text \<open>
  To state properties: the timeline of one patient, the patient's rows in the order line 93
  gives them.
\<close>

definition patient_rows :: "(nat list \<Rightarrow> nat list) \<Rightarrow> meta_row list \<Rightarrow> nat \<Rightarrow> meta_row list" where
  "patient_rows argsort meta pid =
     sort_values_EventDate argsort (filter (\<lambda>r. PatientID r = pid) meta)"

text \<open>
  Example frames: one patient with two visits of the same date; two patients with five
  visits each, in date order, with embeddings of dimension 4, where the flag of patient 1
  rises at the third row and falls again.
\<close>

definition meta_row_of :: "nat \<Rightarrow> nat \<Rightarrow> vec \<Rightarrow> int \<Rightarrow> int \<Rightarrow> meta_row" where
  "meta_row_of pid date e l nl =
     \<lparr>PatientID = pid, EventDate = date, embedding = e, label = l, next_label = nl\<rparr>"

definition tied_meta :: "meta_row list" where
  "tied_meta = [meta_row_of 1 10 [1] 0 0, meta_row_of 1 10 [2] 0 1, meta_row_of 1 20 [3] 1 1]"

definition example_meta :: "meta_row list" where
  "example_meta =
     [meta_row_of 1 10 [1, 0, 0, 0] 0 0, meta_row_of 2 11 [5, 0, 0, 0] 0 0,
      meta_row_of 1 20 [2, 0, 0, 0] 0 0, meta_row_of 2 21 [6, 0, 0, 0] 0 0,
      meta_row_of 1 30 [3, 0, 0, 0] 0 1, meta_row_of 2 31 [7, 0, 0, 0] 0 0,
      meta_row_of 1 40 [4, 0, 0, 0] 1 0, meta_row_of 2 41 [8, 0, 0, 0] 0 0,
      meta_row_of 1 50 [9, 0, 0, 0] 0 1, meta_row_of 2 51 [0, 0, 0, 0] 0 1]"

section \<open>Stage coercion\<close>

text \<open>
  \<^verbatim>\<open>int(value)\<close> on a string: surrounding whitespace is dropped, then an optional sign and
  decimal digits, where single underscores may stand between digits. Anything else raises
  \<^verbatim>\<open>ValueError\<close>. The whitespace \<^verbatim>\<open>int\<close> drops is tab to carriage return and the space, and
  of the code points from 127 on the next-line and no-break space characters; the
  separators 0x1C to 0x1F are not dropped, although \<^verbatim>\<open>str.isspace\<close> holds of them. The digits
  \<^verbatim>\<open>int\<close> reads are 0 to 9.
\<close>

definition int_space :: "char \<Rightarrow> bool" where
  "int_space c = (c \<in> set [CHR 0x20, CHR 0x09, CHR 0x0A, CHR 0x0B, CHR 0x0C, CHR 0x0D,
                            CHR 0x85, CHR 0xA0])"

definition isdecimal :: "char \<Rightarrow> bool" where
  "isdecimal c = (c \<in> set ''0123456789'')"

text \<open>
  \<^verbatim>\<open>str.isdigit\<close> on one character: the decimal digits and the superscripts two, three and
  one, which \<^verbatim>\<open>int\<close> does not read.
\<close>

definition isdigit :: "char \<Rightarrow> bool" where
  "isdigit c = (isdecimal c \<or> c \<in> set [CHR 0xB2, CHR 0xB3, CHR 0xB9])"

definition digit_value :: "char \<Rightarrow> int" where
  "digit_value c = int (of_char c) - 48"

definition strip :: "string \<Rightarrow> string" where
  "strip s = rev (dropWhile int_space (rev (dropWhile int_space s)))"

fun parse_digits :: "int \<Rightarrow> string \<Rightarrow> int option" where
  "parse_digits acc [] = None"
| "parse_digits acc (c # cs) =
     (if \<not> isdecimal c then None
      else (case cs of
              [] \<Rightarrow> Some (acc * 10 + digit_value c)
            | u # rest \<Rightarrow>
                if u = CHR ''_'' then parse_digits (acc * 10 + digit_value c) rest
                else parse_digits (acc * 10 + digit_value c) cs))"

definition int_of_string :: "string \<Rightarrow> int option" where
  "int_of_string s =
     (case strip s of
        [] \<Rightarrow> None
      | c # cs \<Rightarrow>
          if c = CHR ''-'' then map_option uminus (parse_digits 0 cs)
          else if c = CHR ''+'' then parse_digits 0 cs
          else parse_digits 0 (c # cs))"

text \<open>
  \<^verbatim>\<open>int(value)\<close> on any value: a float is cut towards zero, NaN raises \<^verbatim>\<open>ValueError\<close>, an
  infinity \<^verbatim>\<open>OverflowError\<close>, \<^verbatim>\<open>None\<close> raises \<^verbatim>\<open>TypeError\<close>.
\<close>

fun py_int :: "py_value \<Rightarrow> py_error + int" where
  "py_int (PyStr s) = (case int_of_string s of Some n \<Rightarrow> Inr n | None \<Rightarrow> Inl ValueError)"
| "py_int (PyInt n) = Inr n"
| "py_int (PyFloat q) = Inr (if 0 \<le> q then \<lfloor>q\<rfloor> else \<lceil>q\<rceil>)"
| "py_int PyNaN = Inl ValueError"
| "py_int PyPosInf = Inl OverflowError"
| "py_int PyNegInf = Inl OverflowError"
| "py_int PyNone = Inl TypeError"

text \<open>
  \<^verbatim>\<open>clean_ckd_stage\<close> (lines 61-68). Only \<^verbatim>\<open>ValueError\<close> is caught. In the handler,
  \<^verbatim>\<open>value[0]\<close> raises \<^verbatim>\<open>IndexError\<close> for the empty string, and \<^verbatim>\<open>int(value[0])\<close> raises
  \<^verbatim>\<open>ValueError\<close> for a digit that is not decimal. The result \<open>None\<close> is \<^verbatim>\<open>np.nan\<close>.
\<close>

definition clean_ckd_stage :: "py_value \<Rightarrow> py_error + int option" where
  "clean_ckd_stage v =
     (case py_int v of
        Inr n \<Rightarrow> Inr (Some n)
      | Inl ValueError \<Rightarrow>
          (case v of
             PyStr s \<Rightarrow>
               (case s of
                  [] \<Rightarrow> Inl IndexError
                | c # _ \<Rightarrow>
                    if isdigit c then
                      (case py_int (PyStr [c]) of Inr n \<Rightarrow> Inr (Some n) | Inl e \<Rightarrow> Inl e)
                    else Inr None)
           | _ \<Rightarrow> Inr None)
      | Inl e \<Rightarrow> Inl e)"

section \<open>Metadata preparation\<close>

text \<open>
  A row of the metadata file as \<^verbatim>\<open>main\<close> reads it. A derived column is a list of values
  beside the rows, one per row.
\<close>

record raw_row = visit +
  CKD_stage :: py_value
  embedding_file :: string

text \<open>
  \<^verbatim>\<open>metadata['CKD_stage'].apply(clean_ckd_stage)\<close> (line 456): the first exception leaves
  \<^verbatim>\<open>main\<close>.
\<close>

fun apply_clean :: "raw_row list \<Rightarrow> py_error + (raw_row \<times> int option) list" where
  "apply_clean [] = Inr []"
| "apply_clean (r # rs) =
     (case clean_ckd_stage (CKD_stage r) of
        Inl e \<Rightarrow> Inl e
      | Inr v \<Rightarrow> (case apply_clean rs of Inl e \<Rightarrow> Inl e | Inr vs \<Rightarrow> Inr ((r, v) # vs)))"

text \<open>\<^verbatim>\<open>sort_values(by=['PatientID', 'EventDate'])\<close> (line 457), a stable lexicographic sort.\<close>

definition sort_values_PatientID_EventDate ::
  "(('a visit_scheme) \<times> 'b) list \<Rightarrow> (('a visit_scheme) \<times> 'b) list" where
  "sort_values_PatientID_EventDate df = sort_key (\<lambda>rv. (PatientID (fst rv), EventDate (fst rv))) df"

text \<open>
  \<^verbatim>\<open>groupby('PatientID')[...].bfill()\<close> (line 458): a missing value becomes the next value
  of the same patient further down the frame that is not missing, if there is one.
\<close>

fun group_bfill :: "(nat \<times> 'v option) list \<Rightarrow> 'v option list" where
  "group_bfill [] = []"
| "group_bfill ((pid, v) # rest) =
     (case v of
        Some x \<Rightarrow> Some x
      | None \<Rightarrow>
          (case filter (\<lambda>pv. fst pv = pid \<and> snd pv \<noteq> None) rest of
             [] \<Rightarrow> None
           | pv # _ \<Rightarrow> snd pv)) # group_bfill rest"

text \<open>
  \<^verbatim>\<open>groupby('PatientID')['label'].shift(-1)\<close> (line 462): the value of the same patient's
  next row down the frame, missing for the patient's last row.
\<close>

fun group_shift :: "(nat \<times> 'v) list \<Rightarrow> 'v option list" where
  "group_shift [] = []"
| "group_shift ((pid, v) # rest) =
     (case filter (\<lambda>pv. fst pv = pid) rest of [] \<Rightarrow> None | pv # _ \<Rightarrow> Some (snd pv))
       # group_shift rest"

text \<open>\<^verbatim>\<open>dropna(subset=[column])\<close> followed by \<^verbatim>\<open>astype(int)\<close> (lines 459-460, 463-464).\<close>

definition dropna :: "('r \<times> 'v option) list \<Rightarrow> ('r \<times> 'v) list" where
  "dropna df = concat (map (\<lambda>rv. case snd rv of None \<Rightarrow> [] | Some x \<Rightarrow> [(fst rv, x)]) df)"

text \<open>Lines 456-458: the frame sorted, with the column \<^verbatim>\<open>CKD_stage_clean\<close> back-filled.\<close>

definition stage_clean_column :: "raw_row list \<Rightarrow> py_error + (raw_row \<times> int option) list" where
  "stage_clean_column metadata =
     (case apply_clean metadata of
        Inl e \<Rightarrow> Inl e
      | Inr cleaned \<Rightarrow>
          (let sorted_df = sort_values_PatientID_EventDate cleaned
           in Inr (zip (map fst sorted_df)
                    (group_bfill (map (\<lambda>rv. (PatientID (fst rv), snd rv)) sorted_df)))))"

text \<open>Line 461.\<close>

definition label_of_stage :: "int \<Rightarrow> int" where
  "label_of_stage x = (if x < 4 then 0 else 1)"

text \<open>Lines 456-464: the rows that are left, each with its \<open>label\<close> and \<open>next_label\<close>.\<close>

definition label_metadata :: "raw_row list \<Rightarrow> py_error + (raw_row \<times> int \<times> int) list" where
  "label_metadata metadata =
     (case stage_clean_column metadata of
        Inl e \<Rightarrow> Inl e
      | Inr filled \<Rightarrow>
          (let labelled = map (\<lambda>rx. (fst rx, label_of_stage (snd rx))) (dropna filled);
               shifted = group_shift (map (\<lambda>rl. (PatientID (fst rl), snd rl)) labelled)
           in Inr (map (\<lambda>rln. (fst (fst rln), snd (fst rln), snd rln))
                    (dropna (zip labelled shifted)))))"

text \<open>
  The embedding directory is a map from file names to the array stored in the file; a file
  exists when the map has it. \<^verbatim>\<open>load_embedding\<close> (lines 73-78) reads through the cache.
\<close>

definition embedding_exists :: "raw_row \<Rightarrow> (string \<rightharpoonup> vec) \<Rightarrow> bool" where
  "embedding_exists row store = (store (embedding_file row) \<noteq> None)"

definition load_embedding ::
  "(string \<rightharpoonup> vec) \<Rightarrow> string \<Rightarrow> (string \<rightharpoonup> vec) \<Rightarrow> py_error + vec \<times> (string \<rightharpoonup> vec)" where
  "load_embedding store full_path cache =
     (case cache full_path of
        Some e \<Rightarrow> Inr (e, cache)
      | None \<Rightarrow>
          (case store full_path of
             None \<Rightarrow> Inl FileNotFoundError
           | Some e \<Rightarrow> Inr (e, cache(full_path \<mapsto> e))))"

text \<open>Line 481: the embedding of every row, the cache passed from row to row.\<close>

fun load_embeddings ::
  "(string \<rightharpoonup> vec) \<Rightarrow> (string \<rightharpoonup> vec) \<Rightarrow> (raw_row \<times> int \<times> int) list \<Rightarrow> py_error + meta_row list" where
  "load_embeddings store cache [] = Inr []"
| "load_embeddings store cache (rln # rest) =
     (case load_embedding store (embedding_file (fst rln)) cache of
        Inl e \<Rightarrow> Inl e
      | Inr (e, cache') \<Rightarrow>
          (case load_embeddings store cache' rest of
             Inl err \<Rightarrow> Inl err
           | Inr rows \<Rightarrow>
               Inr (\<lparr>PatientID = PatientID (fst rln), EventDate = EventDate (fst rln),
                      embedding = e, label = fst (snd rln), next_label = snd (snd rln)\<rparr> # rows)))"

text \<open>\<^verbatim>\<open>Series.unique()\<close>: the distinct values in order of first appearance.\<close>

fun unique :: "'a list \<Rightarrow> 'a list" where
  "unique [] = []"
| "unique (x # xs) = x # filter (\<lambda>y. y \<noteq> x) (unique xs)"

text \<open>
  Lines 456-481 of \<^verbatim>\<open>main\<close>: the frame \<^verbatim>\<open>metadata\<close> as the splitting receives it.
  \<open>max_patients\<close> is the option \<^verbatim>\<open>--max-patients\<close>. When no row is left, \<^verbatim>\<open>apply\<close> on line 481
  gives a frame, not a column, and the assignment raises \<^verbatim>\<open>ValueError\<close>.
\<close>

definition prepare_metadata ::
  "(string \<rightharpoonup> vec) \<Rightarrow> int option \<Rightarrow> raw_row list \<Rightarrow> py_error + meta_row list" where
  "prepare_metadata store max_patients metadata =
     (case label_metadata metadata of
        Inl e \<Rightarrow> Inl e
      | Inr labelled \<Rightarrow>
          (let existing = filter (\<lambda>rln. embedding_exists (fst rln) store) labelled;
               unique_patients = sort (unique (map (\<lambda>rln. PatientID (fst rln)) existing));
               subset =
                 (case max_patients of
                    None \<Rightarrow> existing
                  | Some m \<Rightarrow>
                      if m < int (length unique_patients)
                      then filter (\<lambda>rln. PatientID (fst rln) \<in> set (py_slice unique_patients 0 m))
                             existing
                      else existing)
           in if subset = [] then Inl ValueError
              else load_embeddings store Map.empty subset))"

text \<open>
  An example metadata file: one patient with four visits; the stage of the second visit
  cannot be coerced.
\<close>

definition raw_row_of :: "nat \<Rightarrow> nat \<Rightarrow> py_value \<Rightarrow> string \<Rightarrow> raw_row" where
  "raw_row_of pid date stage file =
     \<lparr>PatientID = pid, EventDate = date, CKD_stage = stage, embedding_file = file\<rparr>"

definition example_metadata :: "raw_row list" where
  "example_metadata =
     [raw_row_of 1 10 (PyStr ''3'') ''a'', raw_row_of 1 20 (PyStr ''unknown'') ''b'',
      raw_row_of 1 30 (PyStr ''5'') ''c'', raw_row_of 1 40 (PyStr ''5'') ''d'']"

definition example_store :: "string \<rightharpoonup> vec" where
  "example_store = [''a'' \<mapsto> [1], ''b'' \<mapsto> [2], ''c'' \<mapsto> [3], ''d'' \<mapsto> [4]]"

section \<open>Training harness\<close>

text \<open>
  The mean validation loss of an epoch is a float: a real number, an infinity or NaN.
  \<open>float_less\<close> is \<^verbatim>\<open><\<close> on floats; every comparison with NaN is false.
\<close>

datatype float_val = Finite real | PosInf | NegInf | NaN

fun float_less :: "float_val \<Rightarrow> float_val \<Rightarrow> bool" where
  "float_less (Finite a) (Finite b) = (a < b)"
| "float_less (Finite a) PosInf = True"
| "float_less NegInf (Finite b) = True"
| "float_less NegInf PosInf = True"
| "float_less x y = False"

text \<open>
  What the file \<^verbatim>\<open>best_model_path\<close> holds: the weights saved by this run in the epoch with
  the given value of the loop variable \<^verbatim>\<open>epoch\<close> (counted from 0), or a file that was there
  before the run. No file is \<open>None\<close>.
\<close>

datatype checkpoint = Stale | Saved nat

text \<open>
  The variables of the loop of \<^verbatim>\<open>train_and_evaluate\<close> (lines 328-372). \<open>epochs_run\<close> counts the
  epochs begun; the source has no such variable.
\<close>

record train_state =
  best_val_loss :: float_val
  epochs_no_improve :: int
  best_model_file :: "checkpoint option"
  epochs_run :: nat

definition initial_state :: "checkpoint option \<Rightarrow> train_state" where
  "initial_state file =
     \<lparr>best_val_loss = PosInf, epochs_no_improve = 0, best_model_file = file, epochs_run = 0\<rparr>"

text \<open>
  The loop over the epochs left to run. Training and the learning-rate schedule do not
  read the variables above, so an epoch is its mean validation loss \<open>val_loss epoch\<close>.
  The first equation is the loop running out, the last branch but one the \<^verbatim>\<open>break\<close>.
\<close>

fun training_loop :: "int \<Rightarrow> (nat \<Rightarrow> float_val) \<Rightarrow> nat list \<Rightarrow> train_state \<Rightarrow> train_state" where
  "training_loop patience val_loss [] st = st"
| "training_loop patience val_loss (epoch # rest) st =
     (let avg_val_loss = val_loss epoch;
          st1 = st\<lparr>epochs_run := Suc (epochs_run st)\<rparr>
      in if float_less avg_val_loss (best_val_loss st1) then
           training_loop patience val_loss rest
             (st1\<lparr>best_val_loss := avg_val_loss, epochs_no_improve := 0,
                  best_model_file := Some (Saved epoch)\<rparr>)
         else
           (let st2 = st1\<lparr>epochs_no_improve := epochs_no_improve st1 + 1\<rparr>
            in if patience \<le> epochs_no_improve st2 then st2
               else training_loop patience val_loss rest st2))"

text \<open>
  \<^verbatim>\<open>train_and_evaluate\<close> (lines 322-409): the loop over \<^verbatim>\<open>range(args.epochs)\<close>, then
  \<^verbatim>\<open>torch.load(best_model_path)\<close>, which raises when there is no file, then the test
  metrics of the loaded weights, \<open>test_metrics\<close>, which may raise as well.
\<close>

definition train_and_evaluate ::
  "int \<Rightarrow> int \<Rightarrow> (nat \<Rightarrow> float_val) \<Rightarrow> checkpoint option \<Rightarrow> (checkpoint \<Rightarrow> py_error + 'm) \<Rightarrow>
   py_error + 'm" where
  "train_and_evaluate epochs patience val_loss file test_metrics =
     (let st = training_loop patience val_loss [0..<nat epochs] (initial_state file)
      in case best_model_file st of
           None \<Rightarrow> Inl FileNotFoundError
         | Some weights \<Rightarrow> test_metrics weights)"

text \<open>
  One model as \<^verbatim>\<open>main\<close> trains it (lines 549-556): its validation losses, the file at its
  checkpoint path before the run, and its test metrics.
\<close>

record 'm model_run =
  run_val_loss :: "nat \<Rightarrow> float_val"
  run_file :: "checkpoint option"
  run_test_metrics :: "checkpoint \<Rightarrow> py_error + 'm"

text \<open>
  Lines 549-574: the models are trained one after the other, with no handler around a
  call, so the first exception leaves \<^verbatim>\<open>main\<close>. The Neural ODE model is trained only when
  \<^verbatim>\<open>torchdiffeq\<close> is there. The result is the list of results the summary logs.
\<close>

fun train_models :: "int \<Rightarrow> int \<Rightarrow> 'm model_run list \<Rightarrow> py_error + 'm list" where
  "train_models epochs patience [] = Inr []"
| "train_models epochs patience (m # ms) =
     (case train_and_evaluate epochs patience (run_val_loss m) (run_file m) (run_test_metrics m) of
        Inl e \<Rightarrow> Inl e
      | Inr result \<Rightarrow>
          (case train_models epochs patience ms of
             Inl e \<Rightarrow> Inl e
           | Inr results \<Rightarrow> Inr (result # results)))"

definition main_summary ::
  "int \<Rightarrow> int \<Rightarrow> 'm model_run list \<Rightarrow> 'm model_run \<Rightarrow> bool \<Rightarrow> py_error + 'm list" where
  "main_summary epochs patience models ode_model torchdiffeq_available =
     train_models epochs patience (if torchdiffeq_available then models @ [ode_model] else models)"

text \<open>To write examples: the validation losses of a run as a list, NaN past its end.\<close>

definition losses_of :: "float_val list \<Rightarrow> nat \<Rightarrow> float_val" where
  "losses_of xs epoch = (if epoch < length xs then xs ! epoch else NaN)"

section \<open>Patient-level split\<close>

text \<open>
  \<^verbatim>\<open>train_test_split(arr, test_size=t, random_state=seed)\<close> of scikit-learn, for one array and
  a fraction \<open>t\<close>: the test set has \<open>ceil(t * n)\<close> elements and the training set the rest; an
  empty training set is refused. The indices are those of \<^verbatim>\<open>rng.permutation(n)\<close> for a
  generator made from the seed: the first \<open>n_test\<close> go to the test set, the next \<open>n_train\<close>
  to the training set. \<open>permutation\<close> is that function of \<open>n\<close> for the seed of the run.
  The product is exact here, where the library multiplies floats.
\<close>

definition train_test_split ::
  "(nat \<Rightarrow> nat list) \<Rightarrow> rat \<Rightarrow> 'a list \<Rightarrow> py_error + ('a list \<times> 'a list)" where
  "train_test_split permutation test_size arr =
     (let n_samples = length arr;
          n_test = nat \<lceil>test_size * of_nat n_samples\<rceil>;
          n_train = n_samples - n_test
      in if n_train = 0 then Inl ValueError
         else
           (let perm = permutation n_samples;
                ind_test = take n_test perm;
                ind_train = take n_train (drop n_test perm)
            in Inr (map (\<lambda>i. arr ! i) ind_train, map (\<lambda>i. arr ! i) ind_test)))"

text \<open>
  Lines 484-486 of \<^verbatim>\<open>main\<close>: the patients of the frame, split 80/20 and the 80 split again
  90/10 with the same seed. The result is (train, validation, test).
\<close>

definition split_patients ::
  "(nat \<Rightarrow> nat list) \<Rightarrow> ('a keyed_scheme) list \<Rightarrow> py_error + (nat list \<times> nat list \<times> nat list)" where
  "split_patients permutation metadata =
     (let unique_patients = unique (map PatientID metadata)
      in case train_test_split permutation (1 / 5) unique_patients of
           Inl e \<Rightarrow> Inl e
         | Inr (train_patients, test_patients) \<Rightarrow>
             (case train_test_split permutation (1 / 10) train_patients of
                Inl e \<Rightarrow> Inl e
              | Inr (train_patients', val_patients) \<Rightarrow>
                  Inr (train_patients', val_patients, test_patients)))"

text \<open>\<^verbatim>\<open>metadata[metadata['PatientID'].isin(patients)]\<close> (lines 488-490).\<close>

definition isin :: "('a keyed_scheme) list \<Rightarrow> nat list \<Rightarrow> ('a keyed_scheme) list" where
  "isin metadata patients = filter (\<lambda>r. PatientID r \<in> set patients) metadata"

text \<open>Lines 484-495: the windows of the three splits.\<close>

definition split_sequences ::
  "(nat list \<Rightarrow> nat list) \<Rightarrow> (nat \<Rightarrow> nat list) \<Rightarrow> meta_row list \<Rightarrow> int \<Rightarrow>
   py_error + (window list \<times> window list \<times> window list)" where
  "split_sequences argsort permutation metadata wsize =
     (case split_patients permutation metadata of
        Inl e \<Rightarrow> Inl e
      | Inr (train_patients, val_patients, test_patients) \<Rightarrow>
          Inr (build_sequences argsort (isin metadata train_patients) wsize,
               build_sequences argsort (isin metadata val_patients) wsize,
               build_sequences argsort (isin metadata test_patients) wsize))"

text \<open>A permutation to write examples with, and a frame of three patients.\<close>

definition reversed_permutation :: "nat \<Rightarrow> nat list" where
  "reversed_permutation n = rev [0..<n]"

definition three_patients :: "meta_row list" where
  "three_patients =
     [meta_row_of 7 1 [1] 0 0, meta_row_of 8 1 [2] 0 1, meta_row_of 7 2 [3] 0 1,
      meta_row_of 9 1 [4] 1 1, meta_row_of 8 2 [5] 1 1, meta_row_of 9 2 [6] 1 1]"

section \<open>Label-switch analysis\<close>

text \<open>
  A row of the table of predictions (line 423) and a row of the table that
  \<^verbatim>\<open>analyze_switches\<close> returns. An undefined index (\<^verbatim>\<open>None\<close>, NaN) is \<open>None\<close>.
\<close>

record pred_row = keyed +
  LocalIndex :: int
  TrueLabel :: int
  PredLabel :: int

record analysis_row = keyed +
  TrueSwitchIdx :: "int option"
  PredSwitchIdx :: "int option"
  SwitchDifference :: "int option"

text \<open>\<^verbatim>\<open>Series.min()\<close>: NaN for a series with no element.\<close>

definition series_min :: "int list \<Rightarrow> int option" where
  "series_min xs = (case xs of [] \<Rightarrow> None | x # rest \<Rightarrow> Some (fold min rest x))"

definition sort_values_LocalIndex :: "(int list \<Rightarrow> nat list) \<Rightarrow> pred_row list \<Rightarrow> pred_row list" where
  "sort_values_LocalIndex argsort grp = take_rows grp (argsort (map LocalIndex grp))"

text \<open>The body of the loop of lines 429-437, for one group.\<close>

definition switch_of_group ::
  "(int list \<Rightarrow> nat list) \<Rightarrow> nat \<times> pred_row list \<Rightarrow> nat \<times> int option \<times> int option" where
  "switch_of_group argsort pg =
     (let grp = sort_values_LocalIndex argsort (snd pg);
          true_switch = series_min (map LocalIndex (filter (\<lambda>r. TrueLabel r = 1) grp));
          pred_switch = series_min (map LocalIndex (filter (\<lambda>r. PredLabel r = 1) grp))
      in (fst pg, true_switch, pred_switch))"

text \<open>The difference of two columns, element by element: undefined where either is.\<close>

definition column_sub :: "int option \<Rightarrow> int option \<Rightarrow> int option" where
  "column_sub a b =
     (case a of None \<Rightarrow> None | Some x \<Rightarrow> (case b of None \<Rightarrow> None | Some y \<Rightarrow> Some (x - y)))"

text \<open>
  \<^verbatim>\<open>analyze_switches\<close> (lines 426-440). \<^verbatim>\<open>pd.DataFrame([])\<close> is a frame with no column, so
  reading the column \<^verbatim>\<open>PredSwitchIdx\<close> of it on line 439 raises \<^verbatim>\<open>KeyError\<close>.
\<close>

definition analyze_switches ::
  "(int list \<Rightarrow> nat list) \<Rightarrow> pred_row list \<Rightarrow> py_error + analysis_row list" where
  "analyze_switches argsort df =
     (let analysis = map (switch_of_group argsort) (groupby_PatientID df)
      in if analysis = [] then Inl KeyError
         else Inr (map (\<lambda>a. \<lparr>PatientID = fst a, TrueSwitchIdx = fst (snd a),
                              PredSwitchIdx = snd (snd a),
                              SwitchDifference = column_sub (snd (snd a)) (fst (snd a))\<rparr>)
                     analysis))"

text \<open>A table of predictions to write examples with.\<close>

definition pred_row_of :: "nat \<Rightarrow> int \<Rightarrow> int \<Rightarrow> int \<Rightarrow> pred_row" where
  "pred_row_of pid idx true_label pred_label =
     \<lparr>PatientID = pid, LocalIndex = idx, TrueLabel = true_label, PredLabel = pred_label\<rparr>"

definition example_predictions :: "pred_row list" where
  "example_predictions =
     [pred_row_of 1 3 0 0, pred_row_of 1 4 1 0, pred_row_of 1 5 1 0, pred_row_of 1 6 1 1,
      pred_row_of 1 7 1 1, pred_row_of 2 0 0 0, pred_row_of 2 1 1 0]"

text \<open>
  To state what the table holds, in the words of the specification: the minimum local index
  among the rows of a group whose label, true or predicted, is 1; undefined when there is no
  such row.
\<close>

definition first_switch :: "(pred_row \<Rightarrow> int) \<Rightarrow> pred_row list \<Rightarrow> int option" where
  "first_switch lab grp =
     (if \<exists>r\<in>set grp. lab r = 1 then Some (Min (LocalIndex ` {r \<in> set grp. lab r = 1})) else None)"

section \<open>Properties of the label monotonization\<close>

lemma monotonic_loop_length:
  "length (monotonic_loop hp acc labels) = length acc + length labels"
  by (induction labels arbitrary: hp acc) (simp_all add: Let_def)

lemma monotonic_loop_prefix:
  "i < length acc \<Longrightarrow> monotonic_loop hp acc labels ! i = acc ! i"
  by (induction labels arbitrary: hp acc) (simp_all add: Let_def nth_append)

lemma monotonic_loop_nth:
  "i < length labels \<Longrightarrow>
   monotonic_loop hp acc labels ! (length acc + i) =
     (if hp \<or> (\<exists>j\<le>i. labels ! j = 1) then 1 else 0)"
proof (induction labels arbitrary: hp acc i)
  case Nil
  then show ?case by simp
next
  case (Cons lab labels)
  let ?hp = "if lab = 1 then True else hp"
  let ?acc = "acc @ [if ?hp then 1 else 0]"
  show ?case
  proof (cases i)
    case 0
    have "monotonic_loop ?hp ?acc labels ! length acc = ?acc ! length acc"
      by (rule monotonic_loop_prefix) simp
    with 0 show ?thesis by (simp add: Let_def)
  next
    case (Suc k)
    with Cons.prems have k: "k < length labels" by simp
    have ex: "(\<exists>j\<le>Suc k. (lab # labels) ! j = 1) = (lab = 1 \<or> (\<exists>j\<le>k. labels ! j = 1))"
    proof
      assume "\<exists>j\<le>Suc k. (lab # labels) ! j = 1"
      then obtain j where j: "j \<le> Suc k" "(lab # labels) ! j = 1" by blast
      show "lab = 1 \<or> (\<exists>j\<le>k. labels ! j = 1)"
      proof (cases j)
        case 0
        with j show ?thesis by simp
      next
        case (Suc m)
        with j have "m \<le> k" "labels ! m = 1" by simp_all
        then show ?thesis by blast
      qed
    next
      assume "lab = 1 \<or> (\<exists>j\<le>k. labels ! j = 1)"
      then show "\<exists>j\<le>Suc k. (lab # labels) ! j = 1"
      proof
        assume "lab = 1"
        then have "(lab # labels) ! 0 = 1" by simp
        then show ?thesis by blast
      next
        assume "\<exists>j\<le>k. labels ! j = 1"
        then obtain j where "j \<le> k" "labels ! j = 1" by blast
        then have "Suc j \<le> Suc k" "(lab # labels) ! Suc j = 1" by simp_all
        then show ?thesis by blast
      qed
    qed
    have "monotonic_loop ?hp ?acc labels ! (length ?acc + k) =
            (if ?hp \<or> (\<exists>j\<le>k. labels ! j = 1) then 1 else 0)"
      by (rule Cons.IH [OF k])
    with Suc ex show ?thesis by (simp add: Let_def)
  qed
qed

lemma monotonic_labels_length: "length (monotonic_labels labels) = length labels"
  by (simp add: monotonic_labels_def monotonic_loop_length)

lemma monotonic_labels_nth:
  "i < length labels \<Longrightarrow>
   monotonic_labels labels ! i = (if \<exists>j\<le>i. labels ! j = 1 then 1 else 0)"
  using monotonic_loop_nth [of i labels False "[]"] by (simp add: monotonic_labels_def)

text \<open>
  Claim C1. For every sequence of raw flags, \<open>monotonic_labels\<close> returns a sequence of
  the same length, of zeros and ones, whose element at position \<open>i\<close> is 1 exactly when
  some flag at a position \<open>\<le> i\<close> is 1. Hence the output never decreases, and a position
  is the first 1 of the output exactly when it is the first 1 of the input.
\<close>

theorem monotonic_labels_correct:
  "length (monotonic_labels labels) = length labels \<and>
   (\<forall>i<length labels.
      (monotonic_labels labels ! i = 1) = (\<exists>j\<le>i. labels ! j = 1) \<and>
      (monotonic_labels labels ! i = 0 \<or> monotonic_labels labels ! i = 1) \<and>
      (\<forall>k\<le>i. monotonic_labels labels ! k \<le> monotonic_labels labels ! i) \<and>
      ((monotonic_labels labels ! i = 1 \<and> (\<forall>k<i. monotonic_labels labels ! k \<noteq> 1)) =
       (labels ! i = 1 \<and> (\<forall>k<i. labels ! k \<noteq> 1))))"
proof (intro conjI allI impI)
  show "length (monotonic_labels labels) = length labels"
    by (rule monotonic_labels_length)
next
  fix i assume i: "i < length labels"
  show "(monotonic_labels labels ! i = 1) = (\<exists>j\<le>i. labels ! j = 1)"
    by (simp add: monotonic_labels_nth [OF i])
  show "monotonic_labels labels ! i = 0 \<or> monotonic_labels labels ! i = 1"
    by (simp add: monotonic_labels_nth [OF i])
  show "(monotonic_labels labels ! i = 1 \<and> (\<forall>k<i. monotonic_labels labels ! k \<noteq> 1)) =
        (labels ! i = 1 \<and> (\<forall>k<i. labels ! k \<noteq> 1))"
  proof
    assume a: "monotonic_labels labels ! i = 1 \<and> (\<forall>k<i. monotonic_labels labels ! k \<noteq> 1)"
    then obtain j where j: "j \<le> i" "labels ! j = 1"
      using monotonic_labels_nth [OF i] by (auto split: if_splits)
    have none: "labels ! k \<noteq> 1" if "k < i" for k
    proof
      assume "labels ! k = 1"
      moreover from that i have "k < length labels" by simp
      ultimately have "monotonic_labels labels ! k = 1"
        using monotonic_labels_nth [of k labels] by auto
      with a that show False by blast
    qed
    from j none have "j = i" by (cases "j < i") auto
    with j none show "labels ! i = 1 \<and> (\<forall>k<i. labels ! k \<noteq> 1)" by blast
  next
    assume a: "labels ! i = 1 \<and> (\<forall>k<i. labels ! k \<noteq> 1)"
    then have "monotonic_labels labels ! i = 1"
      using monotonic_labels_nth [OF i] by auto
    moreover have "monotonic_labels labels ! k \<noteq> 1" if "k < i" for k
    proof -
      from that i have "k < length labels" by simp
      moreover from a that have "\<not> (\<exists>j\<le>k. labels ! j = 1)" by auto
      ultimately show ?thesis using monotonic_labels_nth [of k labels] by simp
    qed
    ultimately show "monotonic_labels labels ! i = 1 \<and> (\<forall>k<i. monotonic_labels labels ! k \<noteq> 1)"
      by blast
  qed
next
  fix i k assume i: "i < length labels" and k: "k \<le> i"
  then have kl: "k < length labels" by simp
  have "(\<exists>j\<le>k. labels ! j = 1) \<Longrightarrow> (\<exists>j\<le>i. labels ! j = 1)"
    using k by (meson le_trans)
  then show "monotonic_labels labels ! k \<le> monotonic_labels labels ! i"
    by (simp add: monotonic_labels_nth [OF i] monotonic_labels_nth [OF kl])
qed

theorem monotonic_labels_correct_witness:
  "monotonic_labels [0, 0, 1, 0, 1] = [0, 0, 1, 1, 1] \<and>
   monotonic_labels [0, 0, 1, 0, 1] ! 3 = 1 \<and>
   (\<exists>j\<le>3. [0, 0, 1, 0, 1 :: int] ! j = 1) \<and>
   monotonic_labels [0, 0, 1, 0, 1] ! 1 \<le> monotonic_labels [0, 0, 1, 0, 1] ! 3"
proof -
  have ex: "\<exists>j\<le>3. [0, 0, 1, 0, 1 :: int] ! j = 1"
    by (rule exI [of _ 2]) simp
  have "(3::nat) < length [0, 0, 1, 0, 1 :: int]" by simp
  with monotonic_labels_correct [of "[0, 0, 1, 0, 1]"]
  have "(monotonic_labels [0, 0, 1, 0, 1] ! 3 = 1) = (\<exists>j\<le>3. [0, 0, 1, 0, 1 :: int] ! j = 1)"
    by blast
  with ex have "monotonic_labels [0, 0, 1, 0, 1] ! 3 = 1" by simp
  moreover have "monotonic_labels [0, 0, 1, 0, 1] = [0, 0, 1, 1, 1]"
    by (simp add: monotonic_labels_def)
  ultimately show ?thesis using ex by simp
qed

section \<open>Properties of the sorting\<close>

lemma argsort_length: "is_argsort argsort \<Longrightarrow> length (argsort keys) = length keys"
  using distinct_card [of "argsort keys"] by (simp add: is_argsort_def)

lemma argsort_in_range: "is_argsort argsort \<Longrightarrow> i \<in> set (argsort keys) \<Longrightarrow> i < length keys"
  by (simp add: is_argsort_def)

lemma stable_argsort_ok: "is_argsort stable_argsort"
  by (simp add: is_argsort_def stable_argsort_def sorted_sort_key)

lemma reversing_argsort_ok: "is_argsort reversing_argsort"
  by (simp add: is_argsort_def reversing_argsort_def sorted_sort_key)

text \<open>Where the keys are distinct, every sorting algorithm gives the same order.\<close>

lemma argsort_distinct_keys:
  assumes a: "is_argsort argsort" and b: "is_argsort argsort'" and d: "distinct keys"
  shows "argsort keys = argsort' keys"
proof -
  let ?f = "\<lambda>i. keys ! i"
  from d have inj: "inj_on ?f {0..<length keys}"
    by (simp add: inj_on_nth)
  from a b have s: "set (argsort keys) = {0..<length keys}" "set (argsort' keys) = {0..<length keys}"
    by (simp_all add: is_argsort_def)
  have "map ?f (argsort keys) = map ?f (argsort' keys)"
  proof (rule sorted_distinct_set_unique)
    show "sorted (map ?f (argsort keys))" "sorted (map ?f (argsort' keys))"
      using a b by (simp_all add: is_argsort_def)
    show "distinct (map ?f (argsort keys))" "distinct (map ?f (argsort' keys))"
      using a b inj s by (simp_all add: distinct_map is_argsort_def)
    show "set (map ?f (argsort keys)) = set (map ?f (argsort' keys))"
      using s by simp
  qed
  moreover from inj s have "inj_on ?f (set (argsort keys) \<union> set (argsort' keys))"
    by simp
  ultimately show ?thesis by (simp add: inj_on_map_eq_map)
qed

lemma take_rows_length: "is_argsort argsort \<Longrightarrow> length (take_rows df (argsort keys)) = length keys"
  by (simp add: take_rows_def argsort_length)

lemma take_rows_mset:
  assumes "is_argsort argsort" and "length keys = length df"
  shows "mset (take_rows df (argsort keys)) = mset df"
proof -
  from assms have "distinct (argsort keys)" "set (argsort keys) = set [0..<length df]"
    by (simp_all add: is_argsort_def)
  then have e: "mset (argsort keys) = mset [0..<length df]"
    by (metis distinct_upt set_eq_iff_mset_eq_distinct)
  have "mset (take_rows df (argsort keys)) = image_mset (\<lambda>i. df ! i) (mset (argsort keys))"
    by (simp only: take_rows_def mset_map)
  also have "\<dots> = image_mset (\<lambda>i. df ! i) (mset [0..<length df])"
    by (simp only: e)
  also have "\<dots> = mset (map (\<lambda>i. df ! i) [0..<length df])"
    by (simp only: mset_map)
  also have "\<dots> = mset df"
    by (simp only: map_nth)
  finally show ?thesis .
qed

lemma take_rows_map:
  assumes "is_argsort argsort" and "length keys = length df"
  shows "take_rows (map g df) (argsort keys) = map g (take_rows df (argsort keys))"
  using assms argsort_in_range [of argsort _ keys] by (simp add: take_rows_def)

lemma sort_values_EventDate_length:
  "is_argsort argsort \<Longrightarrow> length (sort_values_EventDate argsort grp) = length grp"
  by (simp add: sort_values_EventDate_def take_rows_length)

lemma sort_values_EventDate_mset:
  "is_argsort argsort \<Longrightarrow> mset (sort_values_EventDate argsort grp) = mset grp"
  by (simp add: sort_values_EventDate_def take_rows_mset)

lemma sort_values_EventDate_sorted:
  assumes "is_argsort argsort"
  shows "sorted (map EventDate (sort_values_EventDate argsort grp))"
proof -
  have "map EventDate (take_rows grp (argsort (map EventDate grp))) =
        map (\<lambda>i. map EventDate grp ! i) (argsort (map EventDate grp))"
    using argsort_in_range [OF assms, of _ "map EventDate grp"] by (simp add: take_rows_def)
  with assms show ?thesis
    by (simp add: sort_values_EventDate_def is_argsort_def)
qed

lemma sort_values_EventDate_map:
  assumes "is_argsort argsort" and "\<And>r. EventDate (g r) = EventDate r"
  shows "sort_values_EventDate argsort (map g rows) = map g (sort_values_EventDate argsort rows)"
proof -
  from assms(2) have "map EventDate (map g rows) = map EventDate rows" by simp
  with assms(1) show ?thesis
    by (simp add: sort_values_EventDate_def take_rows_map del: map_map)
qed

section \<open>Properties of the windowing\<close>

lemma foldl_snoc_map: "foldl (\<lambda>acc i. acc @ [f i]) a xs = a @ map f xs"
  by (induction xs arbitrary: a) simp_all

lemma foldl_append_concat:
  "(\<And>a x. g a x = a @ h x) \<Longrightarrow> foldl g a xs = a @ concat (map h xs)"
  by (induction xs arbitrary: a) simp_all

text \<open>The windows one group contributes, as a list.\<close>

lemma patient_sequences_append:
  "patient_sequences argsort W acc pg =
     acc @ map (window_at W (fst pg) (map embedding (sort_values_EventDate argsort (snd pg)))
                  (monotonic_labels (map next_label (sort_values_EventDate argsort (snd pg)))))
             (py_range 1 (length (sort_values_EventDate argsort (snd pg))))"
  by (simp add: patient_sequences_def Let_def foldl_snoc_map)

lemma build_sequences_concat:
  "build_sequences argsort meta W =
     concat (map (\<lambda>pg. patient_sequences argsort W [] pg) (groupby_PatientID meta))"
proof -
  have "foldl (patient_sequences argsort W) [] (groupby_PatientID meta) =
          [] @ concat (map (\<lambda>pg. patient_sequences argsort W [] pg) (groupby_PatientID meta))"
    by (rule foldl_append_concat) (simp add: patient_sequences_append)
  then show ?thesis by (simp add: build_sequences_def)
qed

lemma patient_sequences_pid:
  "w \<in> set (patient_sequences argsort W [] pg) \<Longrightarrow> patient_id w = fst pg"
  by (auto simp: patient_sequences_append window_at_def Let_def)

lemma concat_select:
  "distinct ks \<Longrightarrow> k \<in> set ks \<Longrightarrow> (\<And>j w. w \<in> set (f j) \<Longrightarrow> p w = j) \<Longrightarrow>
   filter (\<lambda>w. p w = k) (concat (map f ks)) = f k"
proof (induction ks)
  case Nil
  then show ?case by simp
next
  case (Cons a ks)
  have all: "filter (\<lambda>w. p w = j) (f j) = f j" for j
    using Cons.prems(3) by (simp add: filter_id_conv)
  have none: "filter (\<lambda>w. p w = k) (f j) = []" if "j \<noteq> k" for j
    using Cons.prems(3) that by (auto simp: filter_empty_conv)
  show ?case
  proof (cases "a = k")
    case True
    with Cons.prems(1) have "k \<notin> set ks" by simp
    then have "filter (\<lambda>w. p w = k) (concat (map f ks)) = []"
      using none by (auto simp: filter_empty_conv dest: Cons.prems(3))
    with True all show ?thesis by simp
  next
    case False
    with Cons.prems have "k \<in> set ks" "distinct ks" by simp_all
    then have "filter (\<lambda>w. p w = k) (concat (map f ks)) = f k"
      using Cons.IH Cons.prems(3) by blast
    with False none show ?thesis by simp
  qed
qed

lemma concat_select_none:
  "k \<notin> set ks \<Longrightarrow> (\<And>j w. w \<in> set (f j) \<Longrightarrow> p w = j) \<Longrightarrow>
   filter (\<lambda>w. p w = k) (concat (map f ks)) = []"
  by (auto simp: filter_empty_conv)

text \<open>
  The windows of one patient in the result of \<open>build_sequences\<close>: those of the patient's
  group when the patient has rows, none otherwise.
\<close>

lemma build_sequences_patient:
  "filter (\<lambda>w. patient_id w = pid) (build_sequences argsort meta W) =
     (if pid \<in> PatientID ` set meta
      then patient_sequences argsort W [] (pid, filter (\<lambda>r. PatientID r = pid) meta)
      else [])"
proof -
  let ?ks = "sort (remdups (map PatientID meta))"
  let ?f = "\<lambda>k. patient_sequences argsort W [] (k, filter (\<lambda>r. PatientID r = k) meta)"
  have eq: "build_sequences argsort meta W = concat (map ?f ?ks)"
    by (simp add: build_sequences_concat groupby_PatientID_def comp_def)
  have pid: "\<And>j w. w \<in> set (?f j) \<Longrightarrow> patient_id w = j"
    by (drule patient_sequences_pid) simp
  show ?thesis
  proof (cases "pid \<in> PatientID ` set meta")
    case True
    then have k: "pid \<in> set ?ks" by simp
    have d: "distinct ?ks" by simp
    have "filter (\<lambda>w. patient_id w = pid) (concat (map ?f ?ks)) = ?f pid"
      by (rule concat_select [where f = ?f and p = patient_id, OF d k]) (rule pid)
    with True eq show ?thesis by simp
  next
    case False
    then have k: "pid \<notin> set ?ks" by simp
    have "filter (\<lambda>w. patient_id w = pid) (concat (map ?f ?ks)) = []"
      by (rule concat_select_none [where f = ?f and p = patient_id, OF k]) (rule pid)
    with False eq show ?thesis by simp
  qed
qed

lemma py_slice_nth:
  assumes "0 \<le> lo" "0 \<le> hi" "nat hi \<le> length xs"
  shows "py_slice xs lo hi = map ((!) xs) [nat lo..<nat hi]"
proof (rule nth_equalityI)
  show "length (py_slice xs lo hi) = length (map ((!) xs) [nat lo..<nat hi])"
    using assms by (auto simp: py_slice_def clamp_index_def Let_def min_def)
next
  fix k assume "k < length (py_slice xs lo hi)"
  with assms have k: "k < nat hi - nat lo" "nat lo \<le> length xs"
    by (auto simp: py_slice_def clamp_index_def Let_def min_def split: if_splits)
  with assms show "py_slice xs lo hi ! k = map ((!) xs) [nat lo..<nat hi] ! k"
    by (auto simp: py_slice_def clamp_index_def Let_def min_def)
qed

lemma window_at_eq:
  assumes "1 \<le> i" "i < length rows"
  shows "window_at W pid (map embedding rows) labels (int i) =
           \<lparr>context_embeddings = map (\<lambda>j. embedding (rows ! j)) [nat (max 0 (int i - W))..<i],
            target = labels ! (i - 1), patient_id = pid, local_index = int i - 1\<rparr>"
proof -
  have "py_slice (map embedding rows) (max 0 (int i - W)) (int i) =
          map ((!) (map embedding rows)) [nat (max 0 (int i - W))..<nat (int i)]"
    using assms by (intro py_slice_nth) simp_all
  also have "\<dots> = map (\<lambda>j. embedding (rows ! j)) [nat (max 0 (int i - W))..<i]"
    using assms by simp
  finally show ?thesis
    using assms by (simp add: window_at_def Let_def nat_diff_distrib)
qed

lemma patient_sequences_eq:
  "patient_sequences argsort W [] (pid, filter (\<lambda>r. PatientID r = pid) meta) =
     map (\<lambda>i. \<lparr>context_embeddings =
                  map (\<lambda>j. embedding (patient_rows argsort meta pid ! j))
                    [nat (max 0 (int i - W))..<i],
                target = monotonic_labels (map next_label (patient_rows argsort meta pid)) ! (i - 1),
                patient_id = pid, local_index = int i - 1\<rparr>)
       [1..<length (patient_rows argsort meta pid)]"
proof -
  let ?rows = "patient_rows argsort meta pid"
  let ?labels = "monotonic_labels (map next_label ?rows)"
  have "patient_sequences argsort W [] (pid, filter (\<lambda>r. PatientID r = pid) meta) =
          map (\<lambda>i. window_at W pid (map embedding ?rows) ?labels (int i)) [1..<length ?rows]"
    by (simp add: patient_sequences_append py_range_def patient_rows_def comp_def)
  also have "\<dots> =
     map (\<lambda>i. \<lparr>context_embeddings =
                  map (\<lambda>j. embedding (?rows ! j)) [nat (max 0 (int i - W))..<i],
                target = ?labels ! (i - 1), patient_id = pid, local_index = int i - 1\<rparr>)
       [1..<length ?rows]"
    by (rule map_cong) (simp_all add: window_at_eq)
  finally show ?thesis .
qed

lemma patient_rows_length:
  "is_argsort argsort \<Longrightarrow>
   length (patient_rows argsort meta pid) = length (filter (\<lambda>r. PatientID r = pid) meta)"
  by (simp add: patient_rows_def sort_values_EventDate_length)

lemma patient_rows_empty:
  assumes "is_argsort argsort" and "pid \<notin> PatientID ` set meta"
  shows "patient_rows argsort meta pid = []"
proof -
  from assms(2) have "filter (\<lambda>r. PatientID r = pid) meta = []"
    by (auto simp: filter_empty_conv)
  with patient_rows_length [OF assms(1), of meta pid] show ?thesis by simp
qed

lemma build_sequences_patient_windows:
  assumes "is_argsort argsort"
  shows "filter (\<lambda>w. patient_id w = pid) (build_sequences argsort meta W) =
     map (\<lambda>i. \<lparr>context_embeddings =
                  map (\<lambda>j. embedding (patient_rows argsort meta pid ! j))
                    [nat (max 0 (int i - W))..<i],
                target = monotonic_labels (map next_label (patient_rows argsort meta pid)) ! (i - 1),
                patient_id = pid, local_index = int i - 1\<rparr>)
       [1..<length (patient_rows argsort meta pid)]"
proof (cases "pid \<in> PatientID ` set meta")
  case True
  then show ?thesis by (simp add: build_sequences_patient patient_sequences_eq)
next
  case False
  with assms show ?thesis by (simp add: build_sequences_patient patient_rows_empty)
qed

lemma build_sequences_label_independent:
  assumes "is_argsort argsort"
  shows "build_sequences argsort (map (label_update f) meta) W = build_sequences argsort meta W"
proof -
  have flt: "filter (\<lambda>r. PatientID r = k) (map (label_update f) meta) =
               map (label_update f) (filter (\<lambda>r. PatientID r = k) meta)" for k
    by (simp add: filter_map comp_def)
  have srt: "sort_values_EventDate argsort (map (label_update f) rows) =
               map (label_update f) (sort_values_EventDate argsort rows)" for rows :: "meta_row list"
    using assms by (rule sort_values_EventDate_map) simp
  have "patient_sequences argsort W [] (k, filter (\<lambda>r. PatientID r = k) (map (label_update f) meta)) =
        patient_sequences argsort W [] (k, filter (\<lambda>r. PatientID r = k) meta)" for k
    by (simp add: patient_sequences_append flt srt comp_def)
  then show ?thesis
    by (simp add: build_sequences_concat groupby_PatientID_def comp_def)
qed

text \<open>
  Claim C2. Whatever algorithm \<open>sort_values\<close> sorts with, the timeline of a patient \<open>pid\<close> is
  the patient's rows of the frame, each once, in ascending order of date. For every
  transition index \<open>i\<close> from 1 to the number of these rows minus 1, \<open>build_sequences\<close>
  produces the window whose context holds the embeddings at the positions from
  \<open>max 0 (i - W)\<close> up to but excluding \<open>i\<close> of the timeline, whose target is the monotonized
  next-visit flag at index \<open>i - 1\<close> and whose local index is \<open>i - 1\<close>; these are all the windows
  of the patient, in this order. The target is read from the \<open>next_label\<close> column: the result
  does not change when the current-visit \<open>label\<close> column is changed in any way.
\<close>

theorem build_sequences_window_contents:
  assumes "is_argsort argsort"
  shows "sorted (map EventDate (patient_rows argsort meta pid)) \<and>
   mset (patient_rows argsort meta pid) = mset (filter (\<lambda>r. PatientID r = pid) meta) \<and>
   filter (\<lambda>w. patient_id w = pid) (build_sequences argsort meta W) =
     map (\<lambda>i. \<lparr>context_embeddings =
                  map (\<lambda>j. embedding (patient_rows argsort meta pid ! j))
                    [nat (max 0 (int i - W))..<i],
                target = monotonic_labels (map next_label (patient_rows argsort meta pid)) ! (i - 1),
                patient_id = pid, local_index = int i - 1\<rparr>)
       [1..<length (patient_rows argsort meta pid)] \<and>
   build_sequences argsort (map (label_update f) meta) W = build_sequences argsort meta W"
proof (intro conjI)
  show "sorted (map EventDate (patient_rows argsort meta pid))"
    using assms by (simp add: patient_rows_def sort_values_EventDate_sorted)
  show "mset (patient_rows argsort meta pid) = mset (filter (\<lambda>r. PatientID r = pid) meta)"
    using assms by (simp only: patient_rows_def sort_values_EventDate_mset)
  show "filter (\<lambda>w. patient_id w = pid) (build_sequences argsort meta W) =
     map (\<lambda>i. \<lparr>context_embeddings =
                  map (\<lambda>j. embedding (patient_rows argsort meta pid ! j))
                    [nat (max 0 (int i - W))..<i],
                target = monotonic_labels (map next_label (patient_rows argsort meta pid)) ! (i - 1),
                patient_id = pid, local_index = int i - 1\<rparr>)
       [1..<length (patient_rows argsort meta pid)]"
    using assms by (rule build_sequences_patient_windows)
  show "build_sequences argsort (map (label_update f) meta) W = build_sequences argsort meta W"
    using assms by (rule build_sequences_label_independent)
qed

lemma example_rows_1:
  "patient_rows stable_argsort example_meta 1 =
     [meta_row_of 1 10 [1, 0, 0, 0] 0 0, meta_row_of 1 20 [2, 0, 0, 0] 0 0,
      meta_row_of 1 30 [3, 0, 0, 0] 0 1, meta_row_of 1 40 [4, 0, 0, 0] 1 0,
      meta_row_of 1 50 [9, 0, 0, 0] 0 1]"
  by code_simp

theorem build_sequences_window_contents_witness:
  "filter (\<lambda>w. patient_id w = 1) (build_sequences stable_argsort example_meta 3) =
     [\<lparr>context_embeddings = [[1, 0, 0, 0]], target = 0, patient_id = 1, local_index = 0\<rparr>,
      \<lparr>context_embeddings = [[1, 0, 0, 0], [2, 0, 0, 0]], target = 0, patient_id = 1,
         local_index = 1\<rparr>,
      \<lparr>context_embeddings = [[1, 0, 0, 0], [2, 0, 0, 0], [3, 0, 0, 0]], target = 1,
         patient_id = 1, local_index = 2\<rparr>,
      \<lparr>context_embeddings = [[2, 0, 0, 0], [3, 0, 0, 0], [4, 0, 0, 0]], target = 1,
         patient_id = 1, local_index = 3\<rparr>]"
proof -
  have up: "[1..<5] = [1, 2, 3, 4]" by (simp add: upt_rec)
  have lab: "monotonic_labels [0, 0, 1, 0, 1] = [0, 0, 1, 1, 1]"
    by (simp add: monotonic_labels_def)
  note inst = build_sequences_window_contents
    [OF stable_argsort_ok, of example_meta 1 3, unfolded example_rows_1]
  from inst show ?thesis
    by (simp add: up lab meta_row_of_def upt_rec)
qed

text \<open>
  Two visits of one date: the two algorithms order them differently, and the windows
  differ with them. The statement above holds of both.
\<close>

lemma tied_dates_follow_the_algorithm:
  "map context_embeddings (build_sequences stable_argsort tied_meta 3) = [[[1]], [[1], [2]]] \<and>
   map context_embeddings (build_sequences reversing_argsort tied_meta 3) = [[[2]], [[2], [1]]]"
  by code_simp

text \<open>
  Claim C9. A patient with \<open>n\<close> rows contributes exactly \<open>n - 1\<close> windows when \<open>n \<ge> 2\<close>, with
  the local indices 0 to \<open>n - 2\<close> in this order, and no window when \<open>n < 2\<close>.
  \<open>build_sequences\<close> has no failing path: it returns a list for every frame and window size,
  whatever algorithm \<open>sort_values\<close> sorts with.
\<close>

theorem build_sequences_window_count:
  assumes "is_argsort argsort"
  shows "(2 \<le> length (filter (\<lambda>r. PatientID r = pid) meta) \<longrightarrow>
      length (filter (\<lambda>w. patient_id w = pid) (build_sequences argsort meta W)) =
        length (filter (\<lambda>r. PatientID r = pid) meta) - 1 \<and>
      map local_index (filter (\<lambda>w. patient_id w = pid) (build_sequences argsort meta W)) =
        map int [0..<length (filter (\<lambda>r. PatientID r = pid) meta) - 1]) \<and>
   (length (filter (\<lambda>r. PatientID r = pid) meta) < 2 \<longrightarrow>
      filter (\<lambda>w. patient_id w = pid) (build_sequences argsort meta W) = [])"
proof -
  let ?n = "length (filter (\<lambda>r. PatientID r = pid) meta)"
  have len: "length (patient_rows argsort meta pid) = ?n"
    using assms by (rule patient_rows_length)
  have idx: "map (\<lambda>i. int i - 1) [Suc 0..<?n] = map int [0..<?n - Suc 0]"
    by (rule nth_equalityI) auto
  show ?thesis
    by (simp add: build_sequences_patient_windows [OF assms] len comp_def idx)
qed

theorem build_sequences_window_count_witness:
  "length (filter (\<lambda>w. patient_id w = 1) (build_sequences stable_argsort example_meta 3)) = 4 \<and>
   map local_index (filter (\<lambda>w. patient_id w = 1) (build_sequences stable_argsort example_meta 3)) =
     [0, 1, 2, 3] \<and>
   length (filter (\<lambda>w. patient_id w = 2) (build_sequences stable_argsort example_meta 3)) = 4 \<and>
   filter (\<lambda>w. patient_id w = 3) (build_sequences stable_argsort example_meta 3) = []"
proof -
  have n1: "length (filter (\<lambda>r. PatientID r = 1) example_meta) = 5"
    by (simp add: example_meta_def meta_row_of_def)
  have n2: "length (filter (\<lambda>r. PatientID r = 2) example_meta) = 5"
    by (simp add: example_meta_def meta_row_of_def)
  have n3: "length (filter (\<lambda>r. PatientID r = 3) example_meta) = 0"
    by (simp add: example_meta_def meta_row_of_def)
  have up: "[0..<4] = [0, 1, 2, 3]" by (simp add: upt_rec)
  from build_sequences_window_count [OF stable_argsort_ok, of 1 example_meta 3]
    build_sequences_window_count [OF stable_argsort_ok, of 2 example_meta 3]
    build_sequences_window_count [OF stable_argsort_ok, of 3 example_meta 3]
  show ?thesis
    unfolding n1 n2 n3 by (simp add: up)
qed

section \<open>Properties of the padding\<close>

lemma py_slice_from_last:
  "0 < len \<Longrightarrow> py_slice_from xs (- len) = drop (length xs - nat len) xs"
  by (auto simp: py_slice_from_def clamp_index_def max_def nat_diff_distrib nat_add_distrib
      intro: arg_cong [where f = "\<lambda>n. drop n xs"])

lemma np_stack_same_length:
  "arrays \<noteq> [] \<Longrightarrow> \<forall>a\<in>set arrays. length a = n \<Longrightarrow> np_stack arrays = Inr arrays"
  by (cases arrays) (auto simp: np_stack_def list_all_iff)

lemma np_stack_Inr: "np_stack arrays = Inr stacked \<Longrightarrow> stacked = arrays \<and> arrays \<noteq> []"
  by (auto simp: np_stack_def split: if_splits)

text \<open>What \<open>pad_sequence\<close> returns when it returns, for a window size \<open>W > 0\<close>.\<close>

lemma pad_sequence_Inr:
  assumes "0 < W" and "pad_sequence seq W D = Inr padded"
  shows "length padded = nat W \<and>
         (int (length seq) < W \<longrightarrow>
            padded = replicate (nat W - length seq) (replicate (nat D) 0) @ seq) \<and>
         (W \<le> int (length seq) \<longrightarrow> padded = drop (length seq - nat W) seq)"
proof (cases "int (length seq) < W")
  case True
  let ?p = "replicate (nat W - length seq) (replicate (nat D) (0::real)) @ seq"
  have len: "length ?p = nat W" using True by simp
  from True assms(2) have D: "0 \<le> D"
    by (auto simp: pad_sequence_def np_zeros_def split: if_splits)
  have "py_slice_from ?p (- W) = ?p"
    using assms(1) len by (simp add: py_slice_from_last)
  with True D assms(2) have "np_stack ?p = Inr padded"
    by (simp add: pad_sequence_def np_zeros_def Let_def nat_diff_distrib)
  then have "padded = ?p" by (simp add: np_stack_Inr)
  with True len show ?thesis by simp
next
  case False
  let ?p = "drop (length seq - nat W) seq"
  from False assms(1) have len: "length ?p = nat W" by simp
  from False assms have "np_stack ?p = Inr padded"
    by (simp add: pad_sequence_def py_slice_from_last)
  then have "padded = ?p" by (simp add: np_stack_Inr)
  with False len show ?thesis by simp
qed

text \<open>It returns when the dimension is not negative and is that of every embedding.\<close>

lemma pad_sequence_returns:
  assumes "0 < W" and "0 \<le> D" and "\<forall>e\<in>set seq. length e = nat D"
  shows "\<exists>padded. pad_sequence seq W D = Inr padded"
proof (cases "int (length seq) < W")
  case True
  let ?p = "replicate (nat W - length seq) (replicate (nat D) (0::real)) @ seq"
  from True have ne: "?p \<noteq> []" by auto
  have len: "length ?p = nat W" using True by simp
  have all: "\<forall>a\<in>set ?p. length a = nat D" using assms(3) by auto
  have "py_slice_from ?p (- W) = ?p"
    using assms(1) len by (simp add: py_slice_from_last)
  moreover have "np_stack ?p = Inr ?p" using ne all by (rule np_stack_same_length)
  ultimately have "pad_sequence seq W D = Inr ?p"
    using True assms(2) by (simp add: pad_sequence_def np_zeros_def Let_def nat_diff_distrib)
  then show ?thesis by blast
next
  case False
  let ?p = "drop (length seq - nat W) seq"
  from False assms(1) have len: "length ?p = nat W" by simp
  with assms(1) have ne: "?p \<noteq> []" by auto
  have all: "\<forall>a\<in>set ?p. length a = nat D" using assms(3) by (auto dest: in_set_dropD)
  have "np_stack ?p = Inr ?p" using ne all by (rule np_stack_same_length)
  then have "pad_sequence seq W D = Inr ?p"
    using False assms(1) by (simp add: pad_sequence_def py_slice_from_last)
  then show ?thesis by blast
qed

lemma py_index_in_range:
  "- int (length xs) \<le> i \<Longrightarrow> i < int (length xs) \<Longrightarrow> \<exists>x \<in> set xs. py_index xs i = Inr x"
  by (auto simp: py_index_def)

text \<open>
  Claim C3. For a window size \<open>W > 0\<close>, every item the dataset delivers
  (\<^verbatim>\<open>__getitem__\<close> returning) is a window of the data whose context has been brought to length
  exactly \<open>W\<close>: a context shorter than \<open>W\<close> has zero vectors of dimension \<open>D\<close> prepended until
  its length is \<open>W\<close>; of a context of length \<open>W\<close> or more the last \<open>W\<close> embeddings are kept, in
  their order. Target, patient and local index are those of the window. The item is
  delivered for every index in range when \<open>D\<close> is not negative and is the dimension of every
  embedding in the data.
\<close>

theorem getitem_context_length:
  assumes "0 < window_size self"
  shows "(\<forall>item. getitem self idx = Inr item \<longrightarrow>
            (\<exists>w. py_index (data self) idx = Inr w \<and>
                 length (context_embeddings item) = nat (window_size self) \<and>
                 (int (length (context_embeddings w)) < window_size self \<longrightarrow>
                    context_embeddings item =
                      replicate (nat (window_size self) - length (context_embeddings w))
                        (replicate (nat (embed_dim self)) 0) @ context_embeddings w) \<and>
                 (window_size self \<le> int (length (context_embeddings w)) \<longrightarrow>
                    context_embeddings item =
                      drop (length (context_embeddings w) - nat (window_size self))
                        (context_embeddings w)) \<and>
                 target item = target w \<and> patient_id item = patient_id w \<and>
                 local_index item = local_index w)) \<and>
         (0 \<le> embed_dim self \<and> - int (length (data self)) \<le> idx \<and> idx < int (length (data self)) \<and>
          (\<forall>w\<in>set (data self). \<forall>e\<in>set (context_embeddings w). length e = nat (embed_dim self))
          \<longrightarrow> (\<exists>item. getitem self idx = Inr item))"
proof (intro conjI allI impI)
  fix item
  assume "getitem self idx = Inr item"
  then obtain w padded where w: "py_index (data self) idx = Inr w"
    and p: "pad_sequence (context_embeddings w) (window_size self) (embed_dim self) = Inr padded"
    and item: "item = w\<lparr>context_embeddings := padded\<rparr>"
    by (auto simp: getitem_def split: sum.splits)
  from pad_sequence_Inr [OF assms p] w item
  show "\<exists>w. py_index (data self) idx = Inr w \<and>
             length (context_embeddings item) = nat (window_size self) \<and>
             (int (length (context_embeddings w)) < window_size self \<longrightarrow>
                context_embeddings item =
                  replicate (nat (window_size self) - length (context_embeddings w))
                    (replicate (nat (embed_dim self)) 0) @ context_embeddings w) \<and>
             (window_size self \<le> int (length (context_embeddings w)) \<longrightarrow>
                context_embeddings item =
                  drop (length (context_embeddings w) - nat (window_size self))
                    (context_embeddings w)) \<and>
             target item = target w \<and> patient_id item = patient_id w \<and>
             local_index item = local_index w"
    by (intro exI [of _ w]) simp
next
  assume h: "0 \<le> embed_dim self \<and> - int (length (data self)) \<le> idx \<and>
             idx < int (length (data self)) \<and>
             (\<forall>w\<in>set (data self). \<forall>e\<in>set (context_embeddings w). length e = nat (embed_dim self))"
  then obtain w where w: "w \<in> set (data self)" "py_index (data self) idx = Inr w"
    using py_index_in_range [of "data self" idx] by blast
  with h have "\<forall>e\<in>set (context_embeddings w). length e = nat (embed_dim self)" by blast
  with assms h obtain padded where
    "pad_sequence (context_embeddings w) (window_size self) (embed_dim self) = Inr padded"
    using pad_sequence_returns [of "window_size self" "embed_dim self" "context_embeddings w"]
    by blast
  with w show "\<exists>item. getitem self idx = Inr item"
    by (simp add: getitem_def)
qed

theorem getitem_context_length_witness:
  "getitem \<lparr>data = build_sequences stable_argsort example_meta 3, window_size = 3, embed_dim = 4\<rparr> 0 =
     Inr \<lparr>context_embeddings = [[0, 0, 0, 0], [0, 0, 0, 0], [1, 0, 0, 0]], target = 0,
          patient_id = 1, local_index = 0\<rparr> \<and>
   getitem \<lparr>data = build_sequences stable_argsort example_meta 3, window_size = 3, embed_dim = 4\<rparr> 3 =
     Inr \<lparr>context_embeddings = [[2, 0, 0, 0], [3, 0, 0, 0], [4, 0, 0, 0]], target = 1,
          patient_id = 1, local_index = 3\<rparr>"
proof -
  let ?ds = "\<lparr>data = build_sequences stable_argsort example_meta 3, window_size = 3, embed_dim = 4\<rparr>"
  have d: "data ?ds =
     [\<lparr>context_embeddings = [[1, 0, 0, 0]], target = 0, patient_id = 1, local_index = 0\<rparr>,
      \<lparr>context_embeddings = [[1, 0, 0, 0], [2, 0, 0, 0]], target = 0, patient_id = 1,
         local_index = 1\<rparr>,
      \<lparr>context_embeddings = [[1, 0, 0, 0], [2, 0, 0, 0], [3, 0, 0, 0]], target = 1,
         patient_id = 1, local_index = 2\<rparr>,
      \<lparr>context_embeddings = [[2, 0, 0, 0], [3, 0, 0, 0], [4, 0, 0, 0]], target = 1,
         patient_id = 1, local_index = 3\<rparr>,
      \<lparr>context_embeddings = [[5, 0, 0, 0]], target = 0, patient_id = 2, local_index = 0\<rparr>,
      \<lparr>context_embeddings = [[5, 0, 0, 0], [6, 0, 0, 0]], target = 0, patient_id = 2,
         local_index = 1\<rparr>,
      \<lparr>context_embeddings = [[5, 0, 0, 0], [6, 0, 0, 0], [7, 0, 0, 0]], target = 0,
         patient_id = 2, local_index = 2\<rparr>,
      \<lparr>context_embeddings = [[6, 0, 0, 0], [7, 0, 0, 0], [8, 0, 0, 0]], target = 0,
         patient_id = 2, local_index = 3\<rparr>]"
    by code_simp
  have pos: "0 < window_size ?ds" by simp
  have r: "replicate (nat 4) (0::real) = [0, 0, 0, 0]" "replicate (nat 3 - 1) [0, 0, 0, 0 :: real] =
      [[0, 0, 0, 0], [0, 0, 0, 0]]"
    by (simp_all add: numeral_eq_Suc)
  have wf: "0 \<le> embed_dim ?ds \<and> - int (length (data ?ds)) \<le> i \<and> i < int (length (data ?ds)) \<and>
       (\<forall>w\<in>set (data ?ds). \<forall>e\<in>set (context_embeddings w). length e = nat (embed_dim ?ds))"
    if "i = 0 \<or> i = 3" for i
    using that unfolding d by auto
  note t0 = getitem_context_length [OF pos, of 0]
  note t3 = getitem_context_length [OF pos, of 3]
  from t0 wf [of 0] obtain item0 where i0: "getitem ?ds 0 = Inr item0" by blast
  from t3 wf [of 3] obtain item3 where i3: "getitem ?ds 3 = Inr item3" by blast
  from t0 i0 obtain w0 where w0: "py_index (data ?ds) 0 = Inr w0"
    and c0: "int (length (context_embeddings w0)) < window_size ?ds \<longrightarrow>
               context_embeddings item0 =
                 replicate (nat (window_size ?ds) - length (context_embeddings w0))
                   (replicate (nat (embed_dim ?ds)) 0) @ context_embeddings w0"
    and m0: "target item0 = target w0 \<and> patient_id item0 = patient_id w0 \<and>
             local_index item0 = local_index w0"
    by blast
  from t3 i3 obtain w3 where w3: "py_index (data ?ds) 3 = Inr w3"
    and c3: "window_size ?ds \<le> int (length (context_embeddings w3)) \<longrightarrow>
               context_embeddings item3 =
                 drop (length (context_embeddings w3) - nat (window_size ?ds)) (context_embeddings w3)"
    and m3: "target item3 = target w3 \<and> patient_id item3 = patient_id w3 \<and>
             local_index item3 = local_index w3"
    by blast
  from w0 have "w0 = \<lparr>context_embeddings = [[1, 0, 0, 0]], target = 0, patient_id = 1,
                      local_index = 0\<rparr>"
    unfolding d by (simp add: py_index_def)
  with c0 m0 r have "item0 = \<lparr>context_embeddings = [[0, 0, 0, 0], [0, 0, 0, 0], [1, 0, 0, 0]],
                              target = 0, patient_id = 1, local_index = 0\<rparr>"
    by (cases item0) simp
  moreover from w3 have "w3 = \<lparr>context_embeddings = [[2, 0, 0, 0], [3, 0, 0, 0], [4, 0, 0, 0]],
                                target = 1, patient_id = 1, local_index = 3\<rparr>"
    unfolding d by (simp add: py_index_def)
  with c3 m3 have "item3 = \<lparr>context_embeddings = [[2, 0, 0, 0], [3, 0, 0, 0], [4, 0, 0, 0]],
                            target = 1, patient_id = 1, local_index = 3\<rparr>"
    by (cases item3) simp
  ultimately show ?thesis using i0 i3 by simp
qed

section \<open>Properties of the stage coercion and of the back-fill\<close>

lemma group_bfill_length: "length (group_bfill xs) = length xs"
  by (induction xs rule: group_bfill.induct) simp_all

lemma group_bfill_nth:
  "i < length xs \<Longrightarrow>
   group_bfill xs ! i =
     (case snd (xs ! i) of
        Some x \<Rightarrow> Some x
      | None \<Rightarrow>
          (case filter (\<lambda>pv. fst pv = fst (xs ! i) \<and> snd pv \<noteq> None) (drop (Suc i) xs) of
             [] \<Rightarrow> None
           | pv # _ \<Rightarrow> snd pv))"
proof (induction xs arbitrary: i rule: group_bfill.induct)
  case 1
  then show ?case by simp
next
  case (2 pid v rest)
  show ?case
  proof (cases i)
    case 0
    then show ?thesis by (cases v) simp_all
  next
    case (Suc k)
    with 2 show ?thesis by (simp cong: option.case_cong list.case_cong)
  qed
qed

lemma dropna_filter:
  "dropna df = map (\<lambda>rv. (fst rv, the (snd rv))) (filter (\<lambda>rv. snd rv \<noteq> None) df)"
  by (induction df) (auto simp: dropna_def split: option.splits)

lemma apply_clean_length: "apply_clean metadata = Inr cleaned \<Longrightarrow> length cleaned = length metadata"
  by (induction metadata arbitrary: cleaned) (auto split: sum.splits)

lemma apply_clean_nth:
  "apply_clean metadata = Inr cleaned \<Longrightarrow> i < length metadata \<Longrightarrow>
   fst (cleaned ! i) = metadata ! i \<and>
   clean_ckd_stage (CKD_stage (metadata ! i)) = Inr (snd (cleaned ! i))"
proof (induction metadata arbitrary: cleaned i)
  case Nil
  then show ?case by simp
next
  case (Cons r rs)
  then show ?case by (cases i) (auto split: sum.splits)
qed

lemma filter_keyed_map:
  "filter (\<lambda>pv. fst pv = k \<and> snd pv \<noteq> None) (map (\<lambda>rv. (PatientID (fst rv), snd rv)) ys) =
   map (\<lambda>rv. (PatientID (fst rv), snd rv))
     (filter (\<lambda>rv. PatientID (fst rv) = k \<and> snd rv \<noteq> None) ys)"
  by (induction ys) simp_all

lemma case_map_keyed:
  "(case map (\<lambda>rv. (PatientID (fst rv), snd rv)) ys of [] \<Rightarrow> None | pv # _ \<Rightarrow> snd pv) =
   (case ys of [] \<Rightarrow> None | rv # _ \<Rightarrow> snd rv)"
  by (cases ys) simp_all

lemma dropna_append: "dropna (xs @ ys) = dropna xs @ dropna ys"
  by (simp add: dropna_def)

lemma dropna_mem: "(r, x) \<in> set (dropna df) \<longleftrightarrow> (r, Some x) \<in> set df"
  by (force simp: dropna_filter image_iff)

text \<open>A row with a later row of the same patient gets a value from the shift.\<close>

lemma group_shift_later:
  assumes "b \<in> set B" and "fst (key b) = fst (key a)"
  shows "\<exists>nl. (a, Some nl) \<in> set (zip (A @ a # B) (group_shift (map key (A @ a # B))))"
proof (induction A)
  case Nil
  obtain pid v where ka: "key a = (pid, v)" by (cases "key a")
  from assms ka have "key b \<in> set (filter (\<lambda>pv. fst pv = pid) (map key B))" by simp
  then obtain pv rest where "filter (\<lambda>pv. fst pv = pid) (map key B) = pv # rest"
    by (cases "filter (\<lambda>pv. fst pv = pid) (map key B)") auto
  with ka show ?case by auto
next
  case (Cons a' A)
  obtain pid v where "key a' = (pid, v)" by (cases "key a'")
  with Cons show ?case by auto
qed

text \<open>
  Line 481 cannot fail on rows whose files exist: every row gets the array stored in its
  file.
\<close>

lemma load_embeddings_existing:
  assumes "\<forall>rln\<in>set rows. store (embedding_file (fst rln)) \<noteq> None" and "cache \<subseteq>\<^sub>m store"
  shows "load_embeddings store cache rows =
           Inr (map (\<lambda>rln. \<lparr>PatientID = PatientID (fst rln), EventDate = EventDate (fst rln),
                             embedding = the (store (embedding_file (fst rln))),
                             label = fst (snd rln), next_label = snd (snd rln)\<rparr>) rows)"
  using assms
proof (induction rows arbitrary: cache)
  case Nil
  then show ?case by simp
next
  case (Cons rln rows)
  let ?path = "embedding_file (fst rln)"
  from Cons.prems(1) obtain e where e: "store ?path = Some e" by auto
  show ?case
  proof (cases "cache ?path")
    case None
    from Cons.prems(2) e have c': "cache(?path \<mapsto> e) \<subseteq>\<^sub>m store"
      by (auto simp: map_le_def)
    from Cons.prems(1) have r: "\<forall>rln\<in>set rows. store (embedding_file (fst rln)) \<noteq> None"
      by simp
    have "load_embeddings store (cache(?path \<mapsto> e)) rows =
           Inr (map (\<lambda>rln. \<lparr>PatientID = PatientID (fst rln), EventDate = EventDate (fst rln),
                             embedding = the (store (embedding_file (fst rln))),
                             label = fst (snd rln), next_label = snd (snd rln)\<rparr>) rows)"
      using r c' by (rule Cons.IH)
    with None e show ?thesis by (simp add: load_embedding_def)
  next
    case (Some e')
    with Cons.prems(2) e have "e' = e"
      by (auto simp: map_le_def dom_def dest!: bspec [where x = ?path])
    moreover from Cons.prems(1) have r: "\<forall>rln\<in>set rows. store (embedding_file (fst rln)) \<noteq> None"
      by simp
    have "load_embeddings store cache rows =
           Inr (map (\<lambda>rln. \<lparr>PatientID = PatientID (fst rln), EventDate = EventDate (fst rln),
                             embedding = the (store (embedding_file (fst rln))),
                             label = fst (snd rln), next_label = snd (snd rln)\<rparr>) rows)"
      using r Cons.prems(2) by (rule Cons.IH)
    ultimately show ?thesis using Some e by (simp add: load_embedding_def)
  qed
qed

text \<open>Lines 456-458, as the theorem below states them.\<close>

lemma stage_clean_column_filled:
  assumes "apply_clean metadata = Inr cleaned"
  shows "\<exists>filled. stage_clean_column metadata = Inr filled \<and>
           map fst filled = map fst (sort_values_PatientID_EventDate cleaned) \<and>
           (\<forall>i<length filled.
              snd (filled ! i) =
                (case snd (sort_values_PatientID_EventDate cleaned ! i) of
                   Some x \<Rightarrow> Some x
                 | None \<Rightarrow>
                     (case filter (\<lambda>rv. PatientID (fst rv) =
                                      PatientID (fst (sort_values_PatientID_EventDate cleaned ! i)) \<and>
                                    snd rv \<noteq> None)
                             (drop (Suc i) (sort_values_PatientID_EventDate cleaned)) of
                        [] \<Rightarrow> None
                      | rv # _ \<Rightarrow> snd rv)))"
proof -
  let ?srt = "sort_values_PatientID_EventDate cleaned"
  let ?keyed = "map (\<lambda>rv. (PatientID (fst rv), snd rv)) ?srt"
  let ?filled = "zip (map fst ?srt) (group_bfill ?keyed)"
  have res: "stage_clean_column metadata = Inr ?filled"
    using assms by (simp add: stage_clean_column_def Let_def)
  have len: "length ?filled = length ?srt"
    by (simp add: group_bfill_length)
  have fst: "map fst ?filled = map fst ?srt"
    by (simp add: group_bfill_length)
  have nth: "snd (?filled ! i) =
                (case snd (?srt ! i) of
                   Some x \<Rightarrow> Some x
                 | None \<Rightarrow>
                     (case filter (\<lambda>rv. PatientID (fst rv) = PatientID (fst (?srt ! i)) \<and>
                                    snd rv \<noteq> None) (drop (Suc i) ?srt) of
                        [] \<Rightarrow> None
                      | rv # _ \<Rightarrow> snd rv))" if "i < length ?filled" for i
  proof -
    from that len have i: "i < length ?srt" by simp
    have k1: "snd (?keyed ! i) = snd (?srt ! i)" using i by simp
    have k2: "fst (?keyed ! i) = PatientID (fst (?srt ! i))" using i by simp
    have inner: "(case filter (\<lambda>pv. fst pv = PatientID (fst (?srt ! i)) \<and> snd pv \<noteq> None)
                         (drop (Suc i) ?keyed) of [] \<Rightarrow> None | pv # _ \<Rightarrow> snd pv) =
                 (case filter (\<lambda>rv. PatientID (fst rv) = PatientID (fst (?srt ! i)) \<and>
                                 snd rv \<noteq> None) (drop (Suc i) ?srt) of
                    [] \<Rightarrow> None | rv # _ \<Rightarrow> snd rv)"
      by (simp only: drop_map filter_keyed_map case_map_keyed)
    from i have "snd (?filled ! i) = group_bfill ?keyed ! i"
      by (simp add: group_bfill_length)
    also have "\<dots> =
       (case snd (?keyed ! i) of
          Some x \<Rightarrow> Some x
        | None \<Rightarrow>
            (case filter (\<lambda>pv. fst pv = fst (?keyed ! i) \<and> snd pv \<noteq> None) (drop (Suc i) ?keyed) of
               [] \<Rightarrow> None
             | pv # _ \<Rightarrow> snd pv))"
      using i by (intro group_bfill_nth) simp
    also have "\<dots> =
       (case snd (?srt ! i) of
          Some x \<Rightarrow> Some x
        | None \<Rightarrow>
            (case filter (\<lambda>rv. PatientID (fst rv) = PatientID (fst (?srt ! i)) \<and> snd rv \<noteq> None)
                    (drop (Suc i) ?srt) of
               [] \<Rightarrow> None
             | rv # _ \<Rightarrow> snd rv))"
      unfolding k1 k2 inner ..
    finally show ?thesis .
  qed
  from res fst nth show ?thesis by blast
qed

text \<open>
  Lines 459-481 for a back-filled row: it is in the labelled frame, with the label of the
  stage it took, and in the frame with the embeddings when its file exists.
\<close>

lemma backfilled_row_is_labelled:
  assumes sc: "stage_clean_column metadata = Inr filled"
    and i: "i < j" "j < length filled"
    and fi: "snd (filled ! i) = Some x" and fj: "snd (filled ! j) \<noteq> None"
    and same: "PatientID (fst (filled ! j)) = PatientID (fst (filled ! i))"
  shows "\<exists>labelled nl.
           label_metadata metadata = Inr labelled \<and>
           (fst (filled ! i), label_of_stage x, nl) \<in> set labelled \<and>
           (embedding_exists (fst (filled ! i)) store \<longrightarrow>
              (\<exists>rows. prepare_metadata store None metadata = Inr rows \<and>
                 \<lparr>PatientID = PatientID (fst (filled ! i)), EventDate = EventDate (fst (filled ! i)),
                  embedding = the (store (embedding_file (fst (filled ! i)))),
                  label = label_of_stage x, next_label = nl\<rparr> \<in> set rows))"
proof -
  let ?g = "\<lambda>rx. (fst rx, label_of_stage (snd rx))"
  let ?key = "\<lambda>rl. (PatientID (fst rl), snd rl)"
  let ?out = "\<lambda>rln. (fst (fst rln), snd (fst rln), snd rln)"
  let ?labelled = "map ?g (dropna filled)"
  let ?shifted = "group_shift (map ?key ?labelled)"
  let ?res = "map ?out (dropna (zip ?labelled ?shifted))"
  let ?r = "fst (filled ! i)"
  from sc have lm: "label_metadata metadata = Inr ?res"
    by (simp add: label_metadata_def Let_def)
  from i have il: "i < length filled" by simp
  from fj obtain y where y: "snd (filled ! j) = Some y" by auto
  from i have "filled ! j \<in> set (drop (Suc i) filled)"
    by (auto simp: in_set_conv_nth intro!: exI [of _ "j - Suc i"])
  with y have later: "(fst (filled ! j), y) \<in> set (dropna (drop (Suc i) filled))"
    by (simp add: dropna_mem flip: y)
  have "filled = take i filled @ filled ! i # drop (Suc i) filled"
    using il by (rule id_take_nth_drop)
  then have "dropna filled =
               dropna (take i filled) @ dropna [filled ! i] @ dropna (drop (Suc i) filled)"
    by (metis append_Cons append_Nil dropna_append)
  moreover have "dropna [filled ! i] = [(?r, x)]"
    using fi by (simp add: dropna_def)
  ultimately have lab: "?labelled = map ?g (dropna (take i filled)) @ ?g (?r, x) #
                                      map ?g (dropna (drop (Suc i) filled))"
    by simp
  from later have b: "?g (fst (filled ! j), y) \<in> set (map ?g (dropna (drop (Suc i) filled)))"
    by (force simp: image_iff)
  have "\<exists>nl. (?g (?r, x), Some nl) \<in> set (zip ?labelled ?shifted)"
    unfolding lab
    by (rule group_shift_later [where key = ?key, OF b]) (simp add: same)
  then obtain nl where "(?g (?r, x), nl) \<in> set (dropna (zip ?labelled ?shifted))"
    by (auto simp: dropna_mem)
  then have "?out (?g (?r, x), nl) \<in> set ?res"
    by (force simp: image_iff)
  then have mem: "(?r, label_of_stage x, nl) \<in> set ?res" by simp
  have prep: "\<exists>rows. prepare_metadata store None metadata = Inr rows \<and>
                 \<lparr>PatientID = PatientID ?r, EventDate = EventDate ?r,
                  embedding = the (store (embedding_file ?r)),
                  label = label_of_stage x, next_label = nl\<rparr> \<in> set rows"
    if ex: "embedding_exists ?r store"
  proof -
    let ?existing = "filter (\<lambda>rln. embedding_exists (fst rln) store) ?res"
    let ?conv = "\<lambda>rln. \<lparr>PatientID = PatientID (fst rln), EventDate = EventDate (fst rln),
                         embedding = the (store (embedding_file (fst rln))),
                         label = fst (snd rln), next_label = snd (snd rln)\<rparr>"
    from mem ex have m: "(?r, label_of_stage x, nl) \<in> set ?existing" by simp
    then have ne: "?existing \<noteq> []" by (metis empty_iff empty_set)
    have "load_embeddings store Map.empty ?existing = Inr (map ?conv ?existing)"
      by (rule load_embeddings_existing) (simp_all add: embedding_exists_def)
    with lm ne have "prepare_metadata store None metadata = Inr (map ?conv ?existing)"
      by (simp add: prepare_metadata_def Let_def)
    moreover from m have "?conv (?r, label_of_stage x, nl) \<in> set (map ?conv ?existing)"
      by (force simp: image_iff)
    ultimately show ?thesis by auto
  qed
  from lm mem prep show ?thesis by blast
qed
text \<open>
  Claim C7, as amended. When every call of \<open>clean_ckd_stage\<close> returns, lines 456-460 do not
  fail. In the frame sorted by patient and date, a row whose stage is resolved keeps its
  stage; a row whose stage is unresolved takes the stage of the next row of the same patient
  with a resolved stage, and stays unresolved only if the patient has no such row further
  down. \<open>dropna\<close> then drops exactly the rows that are still unresolved. An unresolved row
  that took a stage is kept throughout: it is in the labelled frame of lines 461-464 with the
  label of the stage it took and, when its embedding file exists and \<^verbatim>\<open>--max-patients\<close> is
  not given, in the frame the windows are built from, with that label and its embedding.
\<close>

theorem stage_backfill_keeps_rows:
  assumes "apply_clean metadata = Inr cleaned"
  shows "\<exists>filled labelled.
           stage_clean_column metadata = Inr filled \<and>
           label_metadata metadata = Inr labelled \<and>
           map fst filled = map fst (sort_values_PatientID_EventDate cleaned) \<and>
           (\<forall>i<length filled.
              snd (filled ! i) =
                (case snd (sort_values_PatientID_EventDate cleaned ! i) of
                   Some x \<Rightarrow> Some x
                 | None \<Rightarrow>
                     (case filter (\<lambda>rv. PatientID (fst rv) =
                                      PatientID (fst (sort_values_PatientID_EventDate cleaned ! i)) \<and>
                                    snd rv \<noteq> None)
                             (drop (Suc i) (sort_values_PatientID_EventDate cleaned)) of
                        [] \<Rightarrow> None
                      | rv # _ \<Rightarrow> snd rv))) \<and>
           dropna filled = map (\<lambda>rv. (fst rv, the (snd rv))) (filter (\<lambda>rv. snd rv \<noteq> None) filled) \<and>
           (\<forall>i<length filled. \<forall>x.
              snd (sort_values_PatientID_EventDate cleaned ! i) = None \<and> snd (filled ! i) = Some x \<longrightarrow>
              (\<exists>nl. (fst (sort_values_PatientID_EventDate cleaned ! i), label_of_stage x, nl)
                      \<in> set labelled \<and>
                    (embedding_exists (fst (sort_values_PatientID_EventDate cleaned ! i)) store \<longrightarrow>
                       (\<exists>rows. prepare_metadata store None metadata = Inr rows \<and>
                          \<lparr>PatientID = PatientID (fst (sort_values_PatientID_EventDate cleaned ! i)),
                           EventDate = EventDate (fst (sort_values_PatientID_EventDate cleaned ! i)),
                           embedding =
                             the (store (embedding_file
                                    (fst (sort_values_PatientID_EventDate cleaned ! i)))),
                           label = label_of_stage x, next_label = nl\<rparr> \<in> set rows))))"
proof -
  let ?srt = "sort_values_PatientID_EventDate cleaned"
  from stage_clean_column_filled [OF assms] obtain filled where
    sc: "stage_clean_column metadata = Inr filled"
    and mf: "map fst filled = map fst ?srt"
    and nth: "\<forall>i<length filled.
              snd (filled ! i) =
                (case snd (?srt ! i) of
                   Some x \<Rightarrow> Some x
                 | None \<Rightarrow>
                     (case filter (\<lambda>rv. PatientID (fst rv) = PatientID (fst (?srt ! i)) \<and>
                                    snd rv \<noteq> None) (drop (Suc i) ?srt) of
                        [] \<Rightarrow> None
                      | rv # _ \<Rightarrow> snd rv))"
    by blast
  from mf have len: "length filled = length ?srt"
    by (rule map_eq_imp_length_eq)
  have fsti: "fst (filled ! i) = fst (?srt ! i)" if "i < length filled" for i
    using that len arg_cong [OF mf, of "\<lambda>xs. xs ! i"] by simp
  from sc obtain labelled where lm: "label_metadata metadata = Inr labelled"
    by (simp add: label_metadata_def Let_def)
  have kept: "\<exists>nl. (fst (?srt ! i), label_of_stage x, nl) \<in> set labelled \<and>
                (embedding_exists (fst (?srt ! i)) store \<longrightarrow>
                   (\<exists>rows. prepare_metadata store None metadata = Inr rows \<and>
                      \<lparr>PatientID = PatientID (fst (?srt ! i)), EventDate = EventDate (fst (?srt ! i)),
                       embedding = the (store (embedding_file (fst (?srt ! i)))),
                       label = label_of_stage x, next_label = nl\<rparr> \<in> set rows))"
    if i: "i < length filled" and un: "snd (?srt ! i) = None" and fi: "snd (filled ! i) = Some x"
    for i x
  proof -
    let ?P = "\<lambda>rv. PatientID (fst rv) = PatientID (fst (?srt ! i)) \<and> snd rv \<noteq> None"
    from nth i un fi
    have c: "(case filter ?P (drop (Suc i) ?srt) of [] \<Rightarrow> None | rv # _ \<Rightarrow> snd rv) = Some x"
      by simp
    then obtain rv rest where f: "filter ?P (drop (Suc i) ?srt) = rv # rest"
      by (cases "filter ?P (drop (Suc i) ?srt)") simp_all
    then have "rv \<in> set (filter ?P (drop (Suc i) ?srt))" by simp
    then have rv: "rv \<in> set (drop (Suc i) ?srt)" and P: "?P rv" by simp_all
    from rv obtain k where k: "k < length ?srt - Suc i" "drop (Suc i) ?srt ! k = rv"
      by (auto simp: in_set_conv_nth)
    define j where "j = Suc i + k"
    from k have j: "i < j" "j < length ?srt" and sj: "?srt ! j = rv"
      by (simp_all add: j_def)
    from j len have jl: "j < length filled" by simp
    from P sj obtain y where y: "snd (?srt ! j) = Some y" by auto
    with nth jl have fj: "snd (filled ! j) \<noteq> None" by simp
    from P sj fsti [OF i] fsti [OF jl]
    have same: "PatientID (fst (filled ! j)) = PatientID (fst (filled ! i))" by simp
    from backfilled_row_is_labelled [OF sc j(1) jl fi fj same, of store] lm fsti [OF i]
    show ?thesis by auto
  qed
  show ?thesis
  proof (intro exI [of _ filled] exI [of _ labelled] conjI allI impI)
    show "stage_clean_column metadata = Inr filled" by (rule sc)
    show "label_metadata metadata = Inr labelled" by (rule lm)
    show "map fst filled = map fst ?srt" by (rule mf)
    show "dropna filled = map (\<lambda>rv. (fst rv, the (snd rv))) (filter (\<lambda>rv. snd rv \<noteq> None) filled)"
      by (rule dropna_filter)
  next
    fix i assume "i < length filled"
    with nth show "snd (filled ! i) =
                (case snd (?srt ! i) of
                   Some x \<Rightarrow> Some x
                 | None \<Rightarrow>
                     (case filter (\<lambda>rv. PatientID (fst rv) = PatientID (fst (?srt ! i)) \<and>
                                    snd rv \<noteq> None) (drop (Suc i) ?srt) of
                        [] \<Rightarrow> None
                      | rv # _ \<Rightarrow> snd rv))"
      by blast
  next
    fix i x
    assume "i < length filled" and "snd (?srt ! i) = None \<and> snd (filled ! i) = Some x"
    then show "\<exists>nl. (fst (?srt ! i), label_of_stage x, nl) \<in> set labelled \<and>
                (embedding_exists (fst (?srt ! i)) store \<longrightarrow>
                   (\<exists>rows. prepare_metadata store None metadata = Inr rows \<and>
                      \<lparr>PatientID = PatientID (fst (?srt ! i)), EventDate = EventDate (fst (?srt ! i)),
                       embedding = the (store (embedding_file (fst (?srt ! i)))),
                       label = label_of_stage x, next_label = nl\<rparr> \<in> set rows))"
      using kept by blast
  qed
qed

lemma example_cleaned:
  "apply_clean example_metadata =
     Inr [(raw_row_of 1 10 (PyStr ''3'') ''a'', Some 3),
          (raw_row_of 1 20 (PyStr ''unknown'') ''b'', None),
          (raw_row_of 1 30 (PyStr ''5'') ''c'', Some 5),
          (raw_row_of 1 40 (PyStr ''5'') ''d'', Some 5)]"
  by (simp add: example_metadata_def raw_row_of_def clean_ckd_stage_def int_of_string_def
      strip_def int_space_def isdigit_def isdecimal_def digit_value_def)

lemma example_sorted:
  "sort_values_PatientID_EventDate
     [(raw_row_of 1 10 (PyStr ''3'') ''a'', Some 3),
      (raw_row_of 1 20 (PyStr ''unknown'') ''b'', None),
      (raw_row_of 1 30 (PyStr ''5'') ''c'', Some (5::int)),
      (raw_row_of 1 40 (PyStr ''5'') ''d'', Some 5)] =
     [(raw_row_of 1 10 (PyStr ''3'') ''a'', Some 3),
      (raw_row_of 1 20 (PyStr ''unknown'') ''b'', None),
      (raw_row_of 1 30 (PyStr ''5'') ''c'', Some 5),
      (raw_row_of 1 40 (PyStr ''5'') ''d'', Some 5)]"
  by (simp add: sort_values_PatientID_EventDate_def raw_row_of_def)

lemma example_filled:
  "stage_clean_column example_metadata =
     Inr [(raw_row_of 1 10 (PyStr ''3'') ''a'', Some 3),
          (raw_row_of 1 20 (PyStr ''unknown'') ''b'', Some 5),
          (raw_row_of 1 30 (PyStr ''5'') ''c'', Some 5),
          (raw_row_of 1 40 (PyStr ''5'') ''d'', Some 5)]"
  by code_simp

theorem stage_backfill_keeps_rows_witness:
  "\<exists>filled rows nl.
     stage_clean_column example_metadata = Inr filled \<and>
     filled ! 1 = (raw_row_of 1 20 (PyStr ''unknown'') ''b'', Some 5) \<and>
     prepare_metadata example_store None example_metadata = Inr rows \<and>
     \<lparr>PatientID = 1, EventDate = 20, embedding = [2], label = 1, next_label = nl\<rparr> \<in> set rows"
proof -
  from stage_backfill_keeps_rows [OF example_cleaned, of example_store, unfolded example_sorted]
  obtain filled labelled where f: "stage_clean_column example_metadata = Inr filled"
    and k: "\<forall>i<length filled. \<forall>x.
              snd ([(raw_row_of 1 10 (PyStr ''3'') ''a'', Some 3),
                    (raw_row_of 1 20 (PyStr ''unknown'') ''b'', None),
                    (raw_row_of 1 30 (PyStr ''5'') ''c'', Some (5::int)),
                    (raw_row_of 1 40 (PyStr ''5'') ''d'', Some 5)] ! i) = None \<and>
              snd (filled ! i) = Some x \<longrightarrow>
              (\<exists>nl. (fst ([(raw_row_of 1 10 (PyStr ''3'') ''a'', Some 3),
                    (raw_row_of 1 20 (PyStr ''unknown'') ''b'', None),
                    (raw_row_of 1 30 (PyStr ''5'') ''c'', Some (5::int)),
                    (raw_row_of 1 40 (PyStr ''5'') ''d'', Some 5)] ! i), label_of_stage x, nl)
                      \<in> set labelled \<and>
                    (embedding_exists (fst ([(raw_row_of 1 10 (PyStr ''3'') ''a'', Some 3),
                    (raw_row_of 1 20 (PyStr ''unknown'') ''b'', None),
                    (raw_row_of 1 30 (PyStr ''5'') ''c'', Some (5::int)),
                    (raw_row_of 1 40 (PyStr ''5'') ''d'', Some 5)] ! i)) example_store \<longrightarrow>
                       (\<exists>rows. prepare_metadata example_store None example_metadata = Inr rows \<and>
                          \<lparr>PatientID = PatientID (fst ([(raw_row_of 1 10 (PyStr ''3'') ''a'', Some 3),
                    (raw_row_of 1 20 (PyStr ''unknown'') ''b'', None),
                    (raw_row_of 1 30 (PyStr ''5'') ''c'', Some (5::int)),
                    (raw_row_of 1 40 (PyStr ''5'') ''d'', Some 5)] ! i)),
                           EventDate = EventDate (fst ([(raw_row_of 1 10 (PyStr ''3'') ''a'', Some 3),
                    (raw_row_of 1 20 (PyStr ''unknown'') ''b'', None),
                    (raw_row_of 1 30 (PyStr ''5'') ''c'', Some (5::int)),
                    (raw_row_of 1 40 (PyStr ''5'') ''d'', Some 5)] ! i)),
                           embedding =
                             the (example_store (embedding_file
                                    (fst ([(raw_row_of 1 10 (PyStr ''3'') ''a'', Some 3),
                    (raw_row_of 1 20 (PyStr ''unknown'') ''b'', None),
                    (raw_row_of 1 30 (PyStr ''5'') ''c'', Some (5::int)),
                    (raw_row_of 1 40 (PyStr ''5'') ''d'', Some 5)] ! i)))),
                           label = label_of_stage x, next_label = nl\<rparr> \<in> set rows)))"
    by blast
  from f example_filled
  have fl: "filled = [(raw_row_of 1 10 (PyStr ''3'') ''a'', Some 3),
          (raw_row_of 1 20 (PyStr ''unknown'') ''b'', Some 5),
          (raw_row_of 1 30 (PyStr ''5'') ''c'', Some 5),
          (raw_row_of 1 40 (PyStr ''5'') ''d'', Some 5)]"
    by simp
  have ex: "embedding_exists (raw_row_of 1 20 (PyStr ''unknown'') ''b'') example_store"
    by (simp add: embedding_exists_def raw_row_of_def example_store_def)
  from k [rule_format, of 1 5] fl ex
  obtain nl rows where "prepare_metadata example_store None example_metadata = Inr rows"
    and "\<lparr>PatientID = 1, EventDate = 20, embedding = [2], label = 1, next_label = nl\<rparr> \<in> set rows"
    by (auto simp: raw_row_of_def example_store_def label_of_stage_def)
  with f fl show ?thesis by auto
qed

text \<open>
  The claim as stated fails on a patient with the stages 3, unknown, 5, 5: the unknown row
  is not dropped. It takes the stage 5 and the label 1, which is the target of the first
  window, and its embedding \<open>[2]\<close> is in the context of the second window. The dates are
  distinct, so the windows are the same for every sorting algorithm.
\<close>

theorem unresolved_row_not_dropped:
  "clean_ckd_stage (PyStr ''unknown'') = Inr None \<and>
   label_metadata example_metadata =
     Inr [(raw_row_of 1 10 (PyStr ''3'') ''a'', 0, 1),
          (raw_row_of 1 20 (PyStr ''unknown'') ''b'', 1, 1),
          (raw_row_of 1 30 (PyStr ''5'') ''c'', 1, 1)] \<and>
   prepare_metadata example_store None example_metadata =
     Inr [meta_row_of 1 10 [1] 0 1, meta_row_of 1 20 [2] 1 1, meta_row_of 1 30 [3] 1 1] \<and>
   build_sequences stable_argsort
       [meta_row_of 1 10 [1] 0 1, meta_row_of 1 20 [2] 1 1, meta_row_of 1 30 [3] 1 1] 10 =
     [\<lparr>context_embeddings = [[1]], target = 1, patient_id = 1, local_index = 0\<rparr>,
      \<lparr>context_embeddings = [[1], [2]], target = 1, patient_id = 1, local_index = 1\<rparr>]"
  by code_simp

text \<open>
  Claim C10 says that \<open>clean_ckd_stage\<close> never raises. The code raises \<^verbatim>\<open>IndexError\<close> for
  the empty string (\<^verbatim>\<open>value[0]\<close> in the handler) and \<^verbatim>\<open>TypeError\<close> for \<^verbatim>\<open>None\<close>
  (\<^verbatim>\<open>int(None)\<close>, which the handler does not catch).
\<close>

theorem clean_ckd_stage_raises:
  "clean_ckd_stage (PyStr '''') = Inl IndexError \<and> clean_ckd_stage PyNone = Inl TypeError"
  by (simp add: clean_ckd_stage_def int_of_string_def strip_def)

text \<open>What the function does on a string, case by case.\<close>

lemma py_int_decimal: "isdecimal c \<Longrightarrow> py_int (PyStr [c]) = Inr (digit_value c)"
  by (auto simp: int_of_string_def strip_def isdecimal_def int_space_def)

lemma py_int_superscript:
  "isdigit c \<Longrightarrow> \<not> isdecimal c \<Longrightarrow> py_int (PyStr [c]) = Inl ValueError"
  by (auto simp: int_of_string_def strip_def isdigit_def isdecimal_def int_space_def)

lemma clean_ckd_stage_string:
  "clean_ckd_stage (PyStr s) =
     (case int_of_string s of
        Some n \<Rightarrow> Inr (Some n)
      | None \<Rightarrow>
          (case s of
             [] \<Rightarrow> Inl IndexError
           | c # _ \<Rightarrow>
               if isdecimal c then Inr (Some (digit_value c))
               else if isdigit c then Inl ValueError
               else Inr None))"
proof (cases "int_of_string s")
  case (Some n)
  then show ?thesis by (simp add: clean_ckd_stage_def)
next
  case None
  show ?thesis
  proof (cases s)
    case Nil
    with None show ?thesis by (simp add: clean_ckd_stage_def)
  next
    case (Cons c cs)
    consider "isdecimal c" | "isdigit c" "\<not> isdecimal c" | "\<not> isdigit c"
      by (auto simp: isdigit_def)
    then show ?thesis
    proof cases
      case 1
      then have d: "isdigit c" by (simp add: isdigit_def)
      from None Cons 1 d py_int_decimal [OF 1] show ?thesis
        by (simp add: clean_ckd_stage_def del: py_int.simps) (simp add: None)
    next
      case 2
      from None Cons 2 py_int_superscript [OF 2] show ?thesis
        by (simp add: clean_ckd_stage_def del: py_int.simps) (simp add: None)
    next
      case 3
      then have "\<not> isdecimal c" by (simp add: isdigit_def)
      with None Cons 3 show ?thesis by (simp add: clean_ckd_stage_def)
    qed
  qed
qed

section \<open>Properties of the training loop\<close>

lemma training_loop_epochs_run_le:
  "epochs_run (training_loop p vl es st) \<le> epochs_run st + length es"
proof (induction es arbitrary: st)
  case Nil
  then show ?case by simp
next
  case (Cons e es)
  let ?s1 = "st\<lparr>epochs_run := Suc (epochs_run st), best_val_loss := vl e, epochs_no_improve := 0,
               best_model_file := Some (Saved e)\<rparr>"
  let ?s2 = "st\<lparr>epochs_run := Suc (epochs_run st), epochs_no_improve := epochs_no_improve st + 1\<rparr>"
  have "epochs_run (training_loop p vl es ?s1) \<le> epochs_run ?s1 + length es"
       "epochs_run (training_loop p vl es ?s2) \<le> epochs_run ?s2 + length es"
    by (rule Cons.IH)+
  then show ?case by (auto simp: Let_def)
qed

lemma training_loop_epochs_run_mono:
  "epochs_run st \<le> epochs_run (training_loop p vl es st)"
proof (induction es arbitrary: st)
  case Nil
  then show ?case by simp
next
  case (Cons e es)
  let ?s1 = "st\<lparr>epochs_run := Suc (epochs_run st), best_val_loss := vl e, epochs_no_improve := 0,
               best_model_file := Some (Saved e)\<rparr>"
  let ?s2 = "st\<lparr>epochs_run := Suc (epochs_run st), epochs_no_improve := epochs_no_improve st + 1\<rparr>"
  have "epochs_run ?s1 \<le> epochs_run (training_loop p vl es ?s1)"
       "epochs_run ?s2 \<le> epochs_run (training_loop p vl es ?s2)"
    by (rule Cons.IH)+
  then show ?case by (auto simp: Let_def)
qed

lemma training_loop_file_kept:
  "best_model_file st \<noteq> None \<Longrightarrow> best_model_file (training_loop p vl es st) \<noteq> None"
  by (induction es arbitrary: st) (auto simp: Let_def)

text \<open>One epoch: a checkpoint is written exactly on a strict improvement.\<close>

lemma training_loop_one_epoch:
  "training_loop p vl [e] st =
     (if float_less (vl e) (best_val_loss st)
      then st\<lparr>epochs_run := Suc (epochs_run st), best_val_loss := vl e,
               epochs_no_improve := 0, best_model_file := Some (Saved e)\<rparr>
      else st\<lparr>epochs_run := Suc (epochs_run st), epochs_no_improve := epochs_no_improve st + 1\<rparr>)"
  by (simp add: Let_def)

text \<open>
  A run of epochs that leaves the counter at 0 did not stop early and saved its last epoch,
  and the loop goes on after it.
\<close>

lemma training_loop_improved_last:
  assumes "0 \<le> epochs_no_improve st" "es \<noteq> []"
    and "epochs_no_improve (training_loop p vl es st) = 0"
  shows "training_loop p vl (es @ rest) st = training_loop p vl rest (training_loop p vl es st) \<and>
         best_model_file (training_loop p vl es st) = Some (Saved (last es)) \<and>
         best_val_loss (training_loop p vl es st) = vl (last es) \<and>
         epochs_run (training_loop p vl es st) = epochs_run st + length es"
  using assms
proof (induction es arbitrary: st)
  case Nil
  then show ?case by simp
next
  case (Cons e es)
  let ?s1 = "st\<lparr>epochs_run := Suc (epochs_run st), best_val_loss := vl e, epochs_no_improve := 0,
               best_model_file := Some (Saved e)\<rparr>"
  let ?s2 = "st\<lparr>epochs_run := Suc (epochs_run st), epochs_no_improve := epochs_no_improve st + 1\<rparr>"
  show ?case
  proof (cases "float_less (vl e) (best_val_loss st)")
    case True
    then have step: "training_loop p vl ((e # es) @ rs) st = training_loop p vl (es @ rs) ?s1" for rs
      by (simp add: Let_def)
    show ?thesis
    proof (cases "es = []")
      case True
      with step [of rest] step [of "[]"] show ?thesis by simp
    next
      case False
      from Cons.prems(3) step [of "[]"]
      have z: "epochs_no_improve (training_loop p vl es ?s1) = 0" by simp
      have "training_loop p vl (es @ rest) ?s1 =
              training_loop p vl rest (training_loop p vl es ?s1) \<and>
            best_model_file (training_loop p vl es ?s1) = Some (Saved (last es)) \<and>
            best_val_loss (training_loop p vl es ?s1) = vl (last es) \<and>
            epochs_run (training_loop p vl es ?s1) = epochs_run ?s1 + length es"
        using False z by (intro Cons.IH) simp_all
      with step [of rest] step [of "[]"] False show ?thesis by simp
    qed
  next
    case nimp: False
    show ?thesis
    proof (cases "p \<le> epochs_no_improve st + 1")
      case True
      with nimp have "training_loop p vl (e # es) st = ?s2" by (simp add: Let_def)
      with Cons.prems(1,3) show ?thesis by simp
    next
      case False
      with nimp
      have step: "training_loop p vl ((e # es) @ rs) st = training_loop p vl (es @ rs) ?s2" for rs
        by (simp add: Let_def)
      have ne: "es \<noteq> []"
      proof
        assume "es = []"
        with step [of "[]"] Cons.prems(1,3) show False by simp
      qed
      from Cons.prems(3) step [of "[]"]
      have z: "epochs_no_improve (training_loop p vl es ?s2) = 0" by simp
      have "training_loop p vl (es @ rest) ?s2 =
              training_loop p vl rest (training_loop p vl es ?s2) \<and>
            best_model_file (training_loop p vl es ?s2) = Some (Saved (last es)) \<and>
            best_val_loss (training_loop p vl es ?s2) = vl (last es) \<and>
            epochs_run (training_loop p vl es ?s2) = epochs_run ?s2 + length es"
        using Cons.prems(1) ne z by (intro Cons.IH) simp_all
      with step [of rest] step [of "[]"] ne show ?thesis by simp
    qed
  qed
qed

text \<open>
  Epochs without improvement change neither the best loss nor the file. The loop stops
  after the epoch in which the counter reaches the patience, which is the first of them when
  the patience is not above the counter already, or when the epochs run out.
\<close>

lemma training_loop_no_improvement:
  assumes "\<forall>e\<in>set es. \<not> float_less (vl e) (best_val_loss st)"
  shows "training_loop p vl es st =
           st\<lparr>epochs_run := epochs_run st + min (length es) (nat (max 1 (p - epochs_no_improve st))),
               epochs_no_improve :=
                 epochs_no_improve st + int (min (length es) (nat (max 1 (p - epochs_no_improve st))))\<rparr>"
  using assms
proof (induction es arbitrary: st)
  case Nil
  then show ?case by simp
next
  case (Cons e es)
  let ?s2 = "st\<lparr>epochs_run := Suc (epochs_run st), epochs_no_improve := epochs_no_improve st + 1\<rparr>"
  from Cons.prems have nimp: "\<not> float_less (vl e) (best_val_loss st)" by simp
  show ?case
  proof (cases "p \<le> epochs_no_improve st + 1")
    case True
    then have "nat (max 1 (p - epochs_no_improve st)) = 1" by simp
    with nimp True show ?thesis by (simp add: Let_def)
  next
    case False
    have ih: "training_loop p vl es ?s2 =
            ?s2\<lparr>epochs_run := epochs_run ?s2 + min (length es) (nat (max 1 (p - epochs_no_improve ?s2))),
                 epochs_no_improve :=
                   epochs_no_improve ?s2 + int (min (length es) (nat (max 1 (p - epochs_no_improve ?s2))))\<rparr>"
      using Cons.prems by (intro Cons.IH) simp
    from False have n: "nat (max 1 (p - epochs_no_improve st)) =
                        Suc (nat (max 1 (p - (epochs_no_improve st + 1))))"
      by simp
    have "training_loop p vl (e # es) st = training_loop p vl es ?s2"
      using nimp False by (simp add: Let_def)
    also note ih
    finally show ?thesis unfolding n by simp
  qed
qed

text \<open>No checkpoint is written by the run exactly when no epoch it ran improved on +inf.\<close>

lemma training_loop_no_checkpoint:
  assumes "best_model_file st = None" "best_val_loss st = PosInf"
  shows "best_model_file (training_loop p vl es st) = None \<longleftrightarrow>
         (\<forall>e\<in>set (take (epochs_run (training_loop p vl es st) - epochs_run st) es).
            \<not> float_less (vl e) PosInf)"
  using assms
proof (induction es arbitrary: st)
  case Nil
  then show ?case by simp
next
  case (Cons e es)
  let ?s1 = "st\<lparr>epochs_run := Suc (epochs_run st), best_val_loss := vl e, epochs_no_improve := 0,
               best_model_file := Some (Saved e)\<rparr>"
  let ?s2 = "st\<lparr>epochs_run := Suc (epochs_run st), epochs_no_improve := epochs_no_improve st + 1\<rparr>"
  show ?case
  proof (cases "float_less (vl e) PosInf")
    case True
    then have step: "training_loop p vl (e # es) st = training_loop p vl es ?s1"
      using Cons.prems(2) by (simp add: Let_def)
    have "best_model_file (training_loop p vl es ?s1) \<noteq> None"
      by (rule training_loop_file_kept) simp
    moreover have "epochs_run ?s1 \<le> epochs_run (training_loop p vl es ?s1)"
      by (rule training_loop_epochs_run_mono)
    then have "epochs_run (training_loop p vl es ?s1) - epochs_run st =
               Suc (epochs_run (training_loop p vl es ?s1) - Suc (epochs_run st))"
      by simp
    ultimately show ?thesis using True step by simp
  next
    case nimp: False
    show ?thesis
    proof (cases "p \<le> epochs_no_improve st + 1")
      case True
      with nimp Cons.prems show ?thesis by (simp add: Let_def)
    next
      case False
      with nimp Cons.prems(2)
      have step: "training_loop p vl (e # es) st = training_loop p vl es ?s2"
        by (simp add: Let_def)
      have ih: "best_model_file (training_loop p vl es ?s2) = None \<longleftrightarrow>
            (\<forall>e\<in>set (take (epochs_run (training_loop p vl es ?s2) - epochs_run ?s2) es).
               \<not> float_less (vl e) PosInf)"
        using Cons.prems by (intro Cons.IH) simp_all
      have "epochs_run ?s2 \<le> epochs_run (training_loop p vl es ?s2)"
        by (rule training_loop_epochs_run_mono)
      then have "epochs_run (training_loop p vl es ?s2) - epochs_run st =
                 Suc (epochs_run (training_loop p vl es ?s2) - Suc (epochs_run st))"
        by simp
      with ih nimp step show ?thesis by simp
    qed
  qed
qed

lemma train_models_results:
  "train_models epochs patience ms = Inr rs \<Longrightarrow>
   length rs = length ms \<and>
   (\<forall>i<length ms. train_and_evaluate epochs patience (run_val_loss (ms ! i)) (run_file (ms ! i))
                     (run_test_metrics (ms ! i)) = Inr (rs ! i))"
proof (induction ms arbitrary: rs)
  case Nil
  then show ?case by simp
next
  case (Cons m ms)
  from Cons.prems obtain r rs' where
    r: "train_and_evaluate epochs patience (run_val_loss m) (run_file m) (run_test_metrics m) = Inr r"
    and rs': "train_models epochs patience ms = Inr rs'" and rs: "rs = r # rs'"
    by (auto split: sum.splits)
  from Cons.IH [OF rs'] r rs show ?case by (auto simp: nth_Cons split: nat.splits)
qed

lemma train_models_failure:
  "i < length ms \<Longrightarrow>
   train_and_evaluate epochs patience (run_val_loss (ms ! i)) (run_file (ms ! i))
     (run_test_metrics (ms ! i)) = Inl e \<Longrightarrow>
   \<exists>e'. train_models epochs patience ms = Inl e'"
  using train_models_results [of epochs patience ms]
  by (cases "train_models epochs patience ms") auto

text \<open>
  Claim C4, as amended. Epochs are counted from 1, as the log of line 360 counts them, so
  epoch \<open>k\<close> is the pass with loop variable \<open>k - 1\<close>, and \<open>epochs_run\<close> is the number of the
  epoch at which the loop halts.

  In every epoch the checkpoint is written exactly when the mean validation loss is strictly
  below the best so far, and the counter is then 0; otherwise the counter goes up by one and
  nothing is written. If epoch \<open>k\<close> is an improvement that the loop reaches and no later
  epoch improves on it, the loop halts at epoch \<open>k + patience\<close> when the patience is at least
  1, at epoch \<open>k + 1\<close> when it is below 1, and at the last epoch when the epochs run out
  before. The weights loaded for the test metrics are those saved at epoch \<open>k\<close>.
\<close>

theorem early_stopping_reloads_best:
  assumes "1 \<le> k" "int k \<le> epochs"
    and "epochs_no_improve (training_loop patience val_loss [0..<k] (initial_state file)) = 0"
    and "\<forall>j. k \<le> j \<and> j < nat epochs \<longrightarrow> \<not> float_less (val_loss j) (val_loss (k - 1))"
  shows "training_loop patience val_loss [epoch] st =
           (if float_less (val_loss epoch) (best_val_loss st)
            then st\<lparr>epochs_run := Suc (epochs_run st), best_val_loss := val_loss epoch,
                     epochs_no_improve := 0, best_model_file := Some (Saved epoch)\<rparr>
            else st\<lparr>epochs_run := Suc (epochs_run st),
                     epochs_no_improve := epochs_no_improve st + 1\<rparr>) \<and>
         epochs_run (training_loop patience val_loss [0..<nat epochs] (initial_state file)) =
           min (nat epochs) (k + nat (max 1 patience)) \<and>
         best_model_file (training_loop patience val_loss [0..<nat epochs] (initial_state file)) =
           Some (Saved (k - 1)) \<and>
         train_and_evaluate epochs patience val_loss file test_metrics = test_metrics (Saved (k - 1))"
proof -
  let ?st0 = "initial_state file"
  let ?stk = "training_loop patience val_loss [0..<k] ?st0"
  let ?fin = "training_loop patience val_loss [0..<nat epochs] ?st0"
  from assms(1) have ne: "[0..<k] \<noteq> []" and lst: "last [0..<k] = k - 1"
    by (simp_all add: last_upt)
  from assms(1,2) have split: "[0..<nat epochs] = [0..<k] @ [k..<nat epochs]"
    by (metis le_add_diff_inverse nat_int nat_mono upt_add_eq_append zero_le)
  have c0: "0 \<le> epochs_no_improve ?st0" by (simp add: initial_state_def)
  from training_loop_improved_last [OF c0 ne assms(3), of "[k..<nat epochs]"] split lst
  have fin: "?fin = training_loop patience val_loss [k..<nat epochs] ?stk"
    and saved: "best_model_file ?stk = Some (Saved (k - 1))"
    and best: "best_val_loss ?stk = val_loss (k - 1)"
    and run: "epochs_run ?stk = k"
    by (simp_all add: initial_state_def)
  from assms(4) best
  have "\<forall>e\<in>set [k..<nat epochs]. \<not> float_less (val_loss e) (best_val_loss ?stk)"
    by simp
  from training_loop_no_improvement [OF this, of patience] fin
  have fin': "?fin = ?stk\<lparr>epochs_run := epochs_run ?stk +
                     min (length [k..<nat epochs]) (nat (max 1 (patience - epochs_no_improve ?stk))),
                   epochs_no_improve := epochs_no_improve ?stk +
                     int (min (length [k..<nat epochs])
                       (nat (max 1 (patience - epochs_no_improve ?stk))))\<rparr>"
    by simp
  have r: "epochs_run ?fin = min (nat epochs) (k + nat (max 1 patience))"
    using assms(1,2,3) run by (subst fin') (auto simp: min_def)
  have f: "best_model_file ?fin = Some (Saved (k - 1))"
    using saved by (subst fin') simp
  from f have t: "train_and_evaluate epochs patience val_loss file test_metrics =
                  test_metrics (Saved (k - 1))"
    by (simp add: train_and_evaluate_def)
  from r f t training_loop_one_epoch [of patience val_loss epoch st] show ?thesis
    by (simp only: simp_thms)
qed

theorem early_stopping_reloads_best_witness:
  "epochs_run (training_loop 2 (losses_of [Finite 3, Finite 1, Finite 2, Finite 1, Finite 1])
                 [0..<nat 10] (initial_state None)) = 4 \<and>
   train_and_evaluate 10 2 (losses_of [Finite 3, Finite 1, Finite 2, Finite 1, Finite 1]) None Inr =
     (Inr (Saved 1) :: py_error + checkpoint)"
proof -
  let ?vl = "losses_of [Finite 3, Finite 1, Finite 2, Finite 1, Finite 1]"
  have a: "epochs_no_improve (training_loop 2 ?vl [0..<2] (initial_state None)) = 0"
    by code_simp
  have b: "\<forall>j. 2 \<le> j \<and> j < nat 10 \<longrightarrow> \<not> float_less (?vl j) (?vl (2 - 1))"
  proof (intro allI impI)
    fix j :: nat
    assume "2 \<le> j \<and> j < nat 10"
    then consider "j = 2" | "j = 3" | "j = 4" | "5 \<le> j" by linarith
    then show "\<not> float_less (?vl j) (?vl (2 - 1))"
      by cases (simp_all add: losses_of_def)
  qed
  have "(1::nat) \<le> 2" "int 2 \<le> 10" by simp_all
  from early_stopping_reloads_best [OF this a b, of 0 "initial_state None" Inr]
  show ?thesis by simp
qed

text \<open>
  The claim as stated fails for a patience of 0, which \<^verbatim>\<open>--patience\<close> accepts: the counter
  is compared with the patience only after it has been incremented. With losses 1, 2, 3 the
  loss stops improving after epoch 1, and the loop halts at epoch 2, not at epoch 1 + 0.
\<close>

theorem patience_zero_halts_one_epoch_late:
  "float_less (losses_of [Finite 1, Finite 2, Finite 3] 0) PosInf \<and>
   \<not> float_less (losses_of [Finite 1, Finite 2, Finite 3] 1) (losses_of [Finite 1, Finite 2, Finite 3] 0) \<and>
   \<not> float_less (losses_of [Finite 1, Finite 2, Finite 3] 2) (losses_of [Finite 1, Finite 2, Finite 3] 0) \<and>
   epochs_run (training_loop 0 (losses_of [Finite 1, Finite 2, Finite 3]) [0..<nat 3]
                 (initial_state None)) = 2 \<and>
   epochs_run (training_loop 0 (losses_of [Finite 1, Finite 2, Finite 3]) [0..<nat 3]
                 (initial_state None)) \<noteq> 1 + nat 0"
  by code_simp

text \<open>
  Claim C8, as amended. A run that starts with no file at its checkpoint path ends with no
  file exactly when none of the epochs it ran had a validation loss strictly below +inf:
  when it ran no epoch, or when every loss was NaN or +inf (the mean of no validation batch is
  NaN). \<^verbatim>\<open>torch.load\<close> then raises; no call of \<^verbatim>\<open>train_and_evaluate\<close> is guarded, so the
  exception ends \<^verbatim>\<open>main\<close> before the summary: no model is reported, with placeholder metrics
  or otherwise.
\<close>

theorem no_checkpoint_is_fatal:
  "(best_model_file (training_loop patience val_loss [0..<nat epochs] (initial_state None)) = None
      \<longleftrightarrow>
    (\<forall>e\<in>set (take (epochs_run (training_loop patience val_loss [0..<nat epochs]
                                  (initial_state None))) [0..<nat epochs]).
       \<not> float_less (val_loss e) PosInf)) \<and>
   (best_model_file (training_loop patience val_loss [0..<nat epochs] (initial_state None)) = None
      \<longrightarrow>
    train_and_evaluate epochs patience val_loss None test_metrics = Inl FileNotFoundError \<and>
    (i < length models \<and> run_val_loss (models ! i) = val_loss \<and> run_file (models ! i) = None
       \<longrightarrow> (\<exists>e. main_summary epochs patience models ode_model torchdiffeq_available = Inl e)))"
proof -
  let ?fin = "training_loop patience val_loss [0..<nat epochs] (initial_state None)"
  let ?ms = "if torchdiffeq_available then models @ [ode_model] else models"
  have iff: "best_model_file ?fin = None \<longleftrightarrow>
             (\<forall>e\<in>set (take (epochs_run ?fin) [0..<nat epochs]). \<not> float_less (val_loss e) PosInf)"
    using training_loop_no_checkpoint [of "initial_state None" patience val_loss "[0..<nat epochs]"]
    by (simp add: initial_state_def)
  have fatal: "train_and_evaluate epochs patience val_loss None tm = Inl FileNotFoundError"
    if "best_model_file ?fin = None" for tm :: "checkpoint \<Rightarrow> py_error + 'c"
    using that by (simp add: train_and_evaluate_def)
  have abort: "\<exists>e. main_summary epochs patience models ode_model torchdiffeq_available = Inl e"
    if n: "best_model_file ?fin = None"
      and h: "i < length models \<and> run_val_loss (models ! i) = val_loss \<and> run_file (models ! i) = None"
  proof -
    from h have i': "i < length ?ms" and m: "?ms ! i = models ! i"
      by (simp_all add: nth_append)
    from fatal [OF n, of "run_test_metrics (models ! i)"] h m
    have "train_and_evaluate epochs patience (run_val_loss (?ms ! i)) (run_file (?ms ! i))
            (run_test_metrics (?ms ! i)) = Inl FileNotFoundError"
      by simp
    from train_models_failure [OF i' this] show ?thesis
      by (simp only: main_summary_def)
  qed
  show ?thesis
  proof (intro conjI impI)
    show "best_model_file ?fin = None \<longleftrightarrow>
          (\<forall>e\<in>set (take (epochs_run ?fin) [0..<nat epochs]). \<not> float_less (val_loss e) PosInf)"
      by (rule iff)
  next
    assume "best_model_file ?fin = None"
    then show "train_and_evaluate epochs patience val_loss None test_metrics = Inl FileNotFoundError"
      by (rule fatal)
  next
    assume "best_model_file ?fin = None"
      and "i < length models \<and> run_val_loss (models ! i) = val_loss \<and> run_file (models ! i) = None"
    then show "\<exists>e. main_summary epochs patience models ode_model torchdiffeq_available = Inl e"
      by (rule abort)
  qed
qed

theorem no_checkpoint_is_fatal_witness:
  "best_model_file (training_loop 5 (losses_of []) [0..<nat 3] (initial_state None)) = None \<and>
   (train_and_evaluate 3 5 (losses_of []) None Inr :: py_error + checkpoint) = Inl FileNotFoundError \<and>
   (\<exists>e. main_summary 3 5
           [\<lparr>run_val_loss = losses_of [Finite 1], run_file = None, run_test_metrics = Inr\<rparr>,
            \<lparr>run_val_loss = losses_of [], run_file = None, run_test_metrics = Inr\<rparr>]
           \<lparr>run_val_loss = losses_of [Finite 1], run_file = None, run_test_metrics = Inr\<rparr> False =
         (Inl e :: py_error + checkpoint list))"
proof -
  have n: "best_model_file (training_loop 5 (losses_of []) [0..<nat 3] (initial_state None)) = None"
    by code_simp
  note inst = no_checkpoint_is_fatal
    [where patience = 5 and val_loss = "losses_of []" and epochs = 3 and test_metrics = Inr and i = 1
       and models = "[\<lparr>run_val_loss = losses_of [Finite 1], run_file = None, run_test_metrics = Inr\<rparr>,
                      \<lparr>run_val_loss = losses_of [], run_file = None, run_test_metrics = Inr\<rparr>]"
       and ode_model = "\<lparr>run_val_loss = losses_of [Finite 1], run_file = None, run_test_metrics = Inr\<rparr>"
       and torchdiffeq_available = False]
  from inst n show ?thesis by simp
qed

text \<open>
  The claim as stated fails when the validation loss is NaN: five epochs run (the patience),
  none writes a checkpoint, and the load raises.
\<close>

theorem nan_loss_leaves_no_checkpoint:
  "epochs_run (training_loop 5 (losses_of []) [0..<nat 50] (initial_state None)) = 5 \<and>
   best_model_file (training_loop 5 (losses_of []) [0..<nat 50] (initial_state None)) = None \<and>
   (train_and_evaluate 50 5 (losses_of []) None Inr :: py_error + checkpoint) = Inl FileNotFoundError"
  by code_simp

section \<open>Properties of the patient-level split\<close>

lemma unique_set: "set (unique xs) = set xs"
  by (induction xs) auto

lemma unique_distinct: "distinct (unique xs)"
  by (induction xs) (auto simp: unique_set)

text \<open>One call: when the test size is below the number of elements, the call returns and
  the two parts hold each element of a duplicate-free array once.\<close>

lemma train_test_split_partition:
  assumes d: "distinct arr"
    and pd: "distinct (permutation (length arr))"
    and ps: "set (permutation (length arr)) = {0..<length arr}"
    and nt: "nat \<lceil>t * of_nat (length arr)\<rceil> < length arr"
  shows "\<exists>train test. train_test_split permutation t arr = Inr (train, test) \<and>
           distinct (train @ test) \<and> set train \<union> set test = set arr \<and>
           length train = length arr - nat \<lceil>t * of_nat (length arr)\<rceil>"
proof -
  let ?n = "length arr"
  let ?perm = "permutation ?n"
  let ?n_test = "nat \<lceil>t * of_nat ?n\<rceil>"
  let ?n_train = "?n - ?n_test"
  let ?test = "map (\<lambda>i. arr ! i) (take ?n_test ?perm)"
  let ?train = "map (\<lambda>i. arr ! i) (take ?n_train (drop ?n_test ?perm))"
  from nt have res: "train_test_split permutation t arr = Inr (?train, ?test)"
    by (simp add: train_test_split_def Let_def)
  from pd ps have len: "length ?perm = ?n"
    using distinct_card [of ?perm] by simp
  then have whole: "take ?n_train (drop ?n_test ?perm) = drop ?n_test ?perm"
    by simp
  have parts: "?test @ ?train = map (\<lambda>i. arr ! i) ?perm"
    unfolding whole by (simp flip: map_append)
  from d ps have inj: "inj_on (\<lambda>i. arr ! i) (set ?perm)"
    by (simp add: inj_on_nth)
  with pd have "distinct (map (\<lambda>i. arr ! i) ?perm)"
    by (simp add: distinct_map)
  with parts have dist: "distinct (?train @ ?test)"
    by (metis distinct_append inf_commute)
  have "set (map (\<lambda>i. arr ! i) ?perm) = set arr"
    using ps by (auto simp: set_conv_nth [of arr])
  with parts have un: "set ?train \<union> set ?test = set arr"
    by (metis set_append sup_commute)
  have "length ?train = ?n_train"
    using len by simp
  with res dist un show ?thesis by blast
qed

lemma test_size_fifth: "3 \<le> n \<Longrightarrow> nat \<lceil>(1 / 5 :: rat) * of_nat n\<rceil> + 2 \<le> n"
proof -
  assume n: "3 \<le> n"
  have "\<lceil>(1 / 5 :: rat) * of_nat n\<rceil> \<le> int n - 2"
    unfolding ceiling_le_iff using n by simp
  then show ?thesis by linarith
qed

lemma test_size_tenth: "2 \<le> m \<Longrightarrow> nat \<lceil>(1 / 10 :: rat) * of_nat m\<rceil> < m"
proof -
  assume m: "2 \<le> m"
  have "\<lceil>(1 / 10 :: rat) * of_nat m\<rceil> \<le> int m - 1"
    unfolding ceiling_le_iff using m by simp
  then show ?thesis using m by linarith
qed

lemma build_sequences_patient_ids:
  "w \<in> set (build_sequences argsort meta W) \<Longrightarrow> patient_id w \<in> PatientID ` set meta"
  by (auto simp: build_sequences_concat groupby_PatientID_def dest!: patient_sequences_pid)

lemma isin_patients: "PatientID ` set (isin metadata patients) \<subseteq> set patients"
  by (auto simp: isin_def)

text \<open>
  Claim C6, as amended. For a frame with at least three patients and every seed (every
  function that gives a permutation of the indices below \<open>n\<close>), the two calls return, the
  three sets of patients are pairwise disjoint, their union is the set of patients of the
  frame, and every window built for a split is a window of a patient of that split.
\<close>

theorem split_patients_partition:
  assumes perm: "\<forall>n. distinct (permutation n) \<and> set (permutation n) = {0..<n}"
    and three: "3 \<le> length (unique (map PatientID metadata))"
  shows "\<exists>train_patients val_patients test_patients.
           split_patients permutation metadata = Inr (train_patients, val_patients, test_patients) \<and>
           set train_patients \<inter> set val_patients = {} \<and>
           set train_patients \<inter> set test_patients = {} \<and>
           set val_patients \<inter> set test_patients = {} \<and>
           set train_patients \<union> set val_patients \<union> set test_patients = PatientID ` set metadata \<and>
           split_sequences argsort permutation metadata W =
             Inr (build_sequences argsort (isin metadata train_patients) W,
                  build_sequences argsort (isin metadata val_patients) W,
                  build_sequences argsort (isin metadata test_patients) W) \<and>
           (\<forall>w\<in>set (build_sequences argsort (isin metadata train_patients) W).
              patient_id w \<in> set train_patients) \<and>
           (\<forall>w\<in>set (build_sequences argsort (isin metadata val_patients) W).
              patient_id w \<in> set val_patients) \<and>
           (\<forall>w\<in>set (build_sequences argsort (isin metadata test_patients) W).
              patient_id w \<in> set test_patients)"
proof -
  let ?u = "unique (map PatientID metadata)"
  from perm have p: "distinct (permutation n)" "set (permutation n) = {0..<n}" for n
    by simp_all
  from test_size_fifth [OF three]
  have nt: "nat \<lceil>(1 / 5 :: rat) * of_nat (length ?u)\<rceil> < length ?u"
    and big: "2 \<le> length ?u - nat \<lceil>(1 / 5 :: rat) * of_nat (length ?u)\<rceil>"
    by linarith+
  from train_test_split_partition [of ?u permutation "1 / 5", OF unique_distinct p nt]
  obtain tr0 te where
    s1: "train_test_split permutation (1 / 5) ?u = Inr (tr0, te)"
    and d1: "distinct (tr0 @ te)" and u1: "set tr0 \<union> set te = set ?u"
    and l1: "length tr0 = length ?u - nat \<lceil>(1 / 5 :: rat) * of_nat (length ?u)\<rceil>"
    by blast
  from d1 have dtr0: "distinct tr0" by simp
  from big l1 have "2 \<le> length tr0" by simp
  from test_size_tenth [OF this]
  have nt2: "nat \<lceil>(1 / 10 :: rat) * of_nat (length tr0)\<rceil> < length tr0" .
  from train_test_split_partition [of tr0 permutation "1 / 10", OF dtr0 p nt2]
  obtain tr va where
    s2: "train_test_split permutation (1 / 10) tr0 = Inr (tr, va)"
    and d2: "distinct (tr @ va)" and u2: "set tr \<union> set va = set tr0"
    by blast
  from s1 s2 have res: "split_patients permutation metadata = Inr (tr, va, te)"
    by (simp add: split_patients_def Let_def)
  then have seqs: "split_sequences argsort permutation metadata W =
             Inr (build_sequences argsort (isin metadata tr) W, build_sequences argsort (isin metadata va) W,
                  build_sequences argsort (isin metadata te) W)"
    by (simp add: split_sequences_def)
  from d2 have i1: "set tr \<inter> set va = {}" by simp
  from d1 u2 have i2: "set tr \<inter> set te = {}" and i3: "set va \<inter> set te = {}" by auto
  from u1 u2 have un: "set tr \<union> set va \<union> set te = PatientID ` set metadata"
    by (simp add: unique_set)
  have win: "\<forall>w\<in>set (build_sequences argsort (isin metadata ps) W). patient_id w \<in> set ps" for ps
    using build_sequences_patient_ids [of _ argsort "isin metadata ps" W] isin_patients [of metadata ps]
    by blast
  show ?thesis
    by (intro exI [of _ tr] exI [of _ va] exI [of _ te] conjI res i1 i2 i3 un seqs win)
qed

lemma reversed_permutation_ok:
  "\<forall>n. distinct (reversed_permutation n) \<and> set (reversed_permutation n) = {0..<n}"
  by (simp add: reversed_permutation_def)

lemma three_patients_unique: "unique (map PatientID three_patients) = [7, 8, 9]"
  by (simp add: three_patients_def meta_row_of_def)

theorem split_patients_partition_witness:
  "\<exists>train_patients val_patients test_patients.
     split_patients reversed_permutation three_patients =
       Inr (train_patients, val_patients, test_patients) \<and>
     set train_patients \<inter> set val_patients = {} \<and>
     set train_patients \<inter> set test_patients = {} \<and>
     set val_patients \<inter> set test_patients = {} \<and>
     set train_patients \<union> set val_patients \<union> set test_patients = {7, 8, 9}"
proof -
  have three: "3 \<le> length (unique (map PatientID three_patients))"
    by (simp add: three_patients_unique)
  have ids: "PatientID ` set three_patients = {7, 8, 9}"
    by (auto simp: three_patients_def meta_row_of_def)
  from split_patients_partition [OF reversed_permutation_ok three, of stable_argsort 3]
  show ?thesis unfolding ids by (elim exE conjE) (intro exI conjI; assumption)
qed

text \<open>
  The claim as stated fails for a population of two patients: the second call is left
  with one patient, whose test share rounds up to one, and refuses the empty training set.
\<close>

theorem two_patients_cannot_be_split:
  "unique (map PatientID example_meta) = [1, 2] \<and>
   split_patients reversed_permutation example_meta = Inl ValueError \<and>
   split_sequences stable_argsort reversed_permutation example_meta 3 = Inl ValueError"
  by code_simp

section \<open>Properties of the label-switch analysis\<close>

lemma series_min_Min: "series_min xs = (if xs = [] then None else Some (Min (set xs)))"
proof (cases xs)
  case Nil
  then show ?thesis by (simp add: series_min_def)
next
  case (Cons x rest)
  then show ?thesis using Min.set_eq_fold [of x rest] by (simp add: series_min_def)
qed

lemma sort_values_LocalIndex_set:
  "is_argsort argsort \<Longrightarrow> set (sort_values_LocalIndex argsort grp) = set grp"
  using take_rows_mset [of argsort "map LocalIndex grp" grp]
  by (auto simp: sort_values_LocalIndex_def dest: mset_eq_setD)

lemma series_min_first_switch:
  assumes "is_argsort argsort"
  shows "series_min (map LocalIndex (filter (\<lambda>r. lab r = 1) (sort_values_LocalIndex argsort grp))) =
         first_switch lab grp"
proof -
  have "set (map LocalIndex (filter (\<lambda>r. lab r = 1) (sort_values_LocalIndex argsort grp))) =
        LocalIndex ` {r \<in> set grp. lab r = 1}"
    using sort_values_LocalIndex_set [OF assms, of grp] by simp
  moreover have "map LocalIndex (filter (\<lambda>r. lab r = 1) (sort_values_LocalIndex argsort grp)) = [] \<longleftrightarrow>
                 \<not> (\<exists>r\<in>set grp. lab r = 1)"
    using sort_values_LocalIndex_set [OF assms, of grp] by (auto simp: filter_empty_conv)
  ultimately show ?thesis
    by (simp only: series_min_Min first_switch_def split: if_splits) simp
qed

text \<open>
  On a table with at least one row, and whatever algorithm sorts the groups, the result has
  one row per patient, in ascending order of patient, with the indices of the claim.
\<close>

lemma analyze_switches_rows:
  assumes "is_argsort argsort" and "df \<noteq> []"
  shows "analyze_switches argsort df =
           Inr (map (\<lambda>pid. \<lparr>PatientID = pid,
                             TrueSwitchIdx = first_switch TrueLabel (filter (\<lambda>r. PatientID r = pid) df),
                             PredSwitchIdx = first_switch PredLabel (filter (\<lambda>r. PatientID r = pid) df),
                             SwitchDifference =
                               column_sub (first_switch PredLabel (filter (\<lambda>r. PatientID r = pid) df))
                                 (first_switch TrueLabel (filter (\<lambda>r. PatientID r = pid) df))\<rparr>)
                  (sort (remdups (map PatientID df))))"
proof -
  from assms(2) have "set (sort (remdups (map PatientID df))) \<noteq> {}"
    by simp
  then have "sort (remdups (map PatientID df)) \<noteq> []"
    by (simp only: set_empty not_False_eq_True)
  then have "groupby_PatientID df \<noteq> []"
    by (simp add: groupby_PatientID_def)
  then show ?thesis
    by (simp add: analyze_switches_def Let_def groupby_PatientID_def switch_of_group_def comp_def
        series_min_first_switch [OF assms(1)])
qed

lemma column_sub_defined:
  "column_sub a b = (if a = None \<or> b = None then None else Some (the a - the b))"
  by (simp add: column_sub_def split: option.splits)

lemma analyze_switches_example:
  "analyze_switches stable_argsort example_predictions =
     Inr [\<lparr>PatientID = 1, TrueSwitchIdx = Some 4, PredSwitchIdx = Some 6, SwitchDifference = Some 2\<rparr>,
          \<lparr>PatientID = 2, TrueSwitchIdx = Some 1, PredSwitchIdx = None, SwitchDifference = None\<rparr>]"
  by code_simp


end
